theory Spec2Isabelle
  imports Complex_Main
begin

section \<open>One-step binomial option pricer (OptionPricing.py)\<close>

text \<open>
  The repository is a single Python function, \<open>binomial_one_step\<close>, that prices a
  European call or put on a one-period binomial tree, followed by a demonstration call.

  Numbers: the source computes on IEEE double precision values (\<open>numpy.float64\<close>).
  The function is embedded twice, line for line the same, over two arithmetics:
  \<^item> \<open>binomial_one_step\<close> reads every number as a \<^typ>\<open>real\<close> and \<open>np.exp\<close>,
    \<open>np.sqrt\<close> as the real exponential and square root. This is the exact arithmetic in
    which the specification states its formulas; overflow, NaN and rounding error are
    outside it.
  \<^item> \<open>binomial_one_step_f64\<close> computes in double precision, with rounding, infinities
    and NaN.
  A statement that needs a fact of real arithmetic is stated of the first and says so; what
  the program does where the two differ is evaluated in the second.

  Errors: every failure of the source is \<open>raise ValueError(message)\<close>; the four
  messages are kept as the source writes them.
\<close>

subsection \<open>Errors\<close>

datatype py_error = ValueError string

definition msg_option_type :: string where
  "msg_option_type = ''option_type must be 'call' or 'put'' @ [CHR 0x27]"

definition msg_positive :: string where
  "msg_positive = ''S, K, T, sigma must be positive''"

definition msg_equal_factors :: string where
  "msg_equal_factors = ''u and d factors are equal; check parameters''"

definition msg_no_arbitrage :: string where
  "msg_no_arbitrage = ''No-arbitrage condition violated: p must be between 0 and 1''"

text \<open>
  The specification names three kinds of failure. A caller of the source reads the kind
  off the message of the \<open>ValueError\<close> it caught: the two validation messages are
  \<open>InvalidArgument\<close>, the other two messages have a kind each.
\<close>

datatype error_category = InvalidArgument | DegenerateModel | ArbitrageViolation

definition category :: "py_error \<Rightarrow> error_category option" where
  "category e = (case e of ValueError m \<Rightarrow>
     if m = msg_option_type \<or> m = msg_positive then Some InvalidArgument
     else if m = msg_equal_factors then Some DegenerateModel
     else if m = msg_no_arbitrage then Some ArbitrageViolation
     else None)"

definition raises :: "py_error + 'a \<Rightarrow> error_category \<Rightarrow> bool" where
  "raises res c = (case res of Inl e \<Rightarrow> category e = Some c | Inr v \<Rightarrow> False)"

section \<open>The function in exact arithmetic\<close>

subsection \<open>Rounding to a number of decimals\<close>

text \<open>
  \<open>round(option_price, 2)\<close> is applied to a \<open>numpy.float64\<close>: the value is scaled
  by \<open>10 ^ ndigits\<close>, rounded to the nearest integer with ties going to the even
  neighbour (\<open>rint\<close>), and scaled back. \<open>py_round\<close> is that on the reals, where the
  two scalings are exact.
\<close>

definition rint :: "real \<Rightarrow> int" where
  "rint x = (let f = \<lfloor>x\<rfloor>; frac = x - of_int f in
     if frac < 1 / 2 then f
     else if 1 / 2 < frac then f + 1
     else if even f then f else f + 1)"

definition py_round :: "real \<Rightarrow> nat \<Rightarrow> real" where
  "py_round x ndigits = of_int (rint (x * 10 ^ ndigits)) / 10 ^ ndigits"

subsection \<open>The pricer\<close>

definition binomial_one_step ::
  "real \<Rightarrow> real \<Rightarrow> real \<Rightarrow> real \<Rightarrow> real \<Rightarrow> string \<Rightarrow> py_error + real" where
  "binomial_one_step S K T r sigma option_type =
    (if option_type \<notin> set [''call'', ''put''] then Inl (ValueError msg_option_type)
     else if S \<le> 0 \<or> K \<le> 0 \<or> T \<le> 0 \<or> sigma \<le> 0 then Inl (ValueError msg_positive)
     else
       let u = exp (sigma * sqrt T);
           d = exp (- sigma * sqrt T)
       in if u = d then Inl (ValueError msg_equal_factors)
       else
         let S_u = S * u;
             S_d = S * d;
             f_u = (if option_type = ''call'' then max (S_u - K) 0 else max (K - S_u) 0);
             f_d = (if option_type = ''call'' then max (S_d - K) 0 else max (K - S_d) 0);
             p = (exp (r * T) - d) / (u - d)
         in if p < 0 \<or> p > 1 then Inl (ValueError msg_no_arbitrage)
         else
           let discount = exp (- r * T);
               option_price = discount * (p * f_u + (1 - p) * f_d)
           in Inr (py_round option_price 2))"

text \<open>
  The signature is \<open>binomial_one_step(S, K, T, r, sigma, option_type='call')\<close>: a call
  may leave the sixth argument out, and the parameter is then bound to its default.
\<close>

definition call_binomial_one_step ::
  "real \<Rightarrow> real \<Rightarrow> real \<Rightarrow> real \<Rightarrow> real \<Rightarrow> string option \<Rightarrow> py_error + real" where
  "call_binomial_one_step S K T r sigma arg =
     binomial_one_step S K T r sigma (case arg of None \<Rightarrow> ''call'' | Some ot \<Rightarrow> ot)"

subsection \<open>The quantities of the algorithm, by name\<close>

text \<open>
  The intermediate values of the function body, as functions of the inputs, for use in the
  statements below. Each is shown equal to what the body computes by the lemmas that
  unfold \<open>binomial_one_step\<close>.
\<close>

definition up_factor :: "real \<Rightarrow> real \<Rightarrow> real" where
  "up_factor sigma T = exp (sigma * sqrt T)"

definition down_factor :: "real \<Rightarrow> real \<Rightarrow> real" where
  "down_factor sigma T = exp (- sigma * sqrt T)"

definition risk_neutral_p :: "real \<Rightarrow> real \<Rightarrow> real \<Rightarrow> real" where
  "risk_neutral_p T r sigma =
     (exp (r * T) - down_factor sigma T) / (up_factor sigma T - down_factor sigma T)"

definition payoff :: "string \<Rightarrow> real \<Rightarrow> real \<Rightarrow> real" where
  "payoff option_type K S_T =
     (if option_type = ''call'' then max (S_T - K) 0 else max (K - S_T) 0)"

definition expected_value :: "real \<Rightarrow> real \<Rightarrow> real \<Rightarrow> real \<Rightarrow> real \<Rightarrow> string \<Rightarrow> real" where
  "expected_value S K T r sigma option_type =
     exp (- r * T) *
       (risk_neutral_p T r sigma * payoff option_type K (S * up_factor sigma T)
        + (1 - risk_neutral_p T r sigma) * payoff option_type K (S * down_factor sigma T))"

definition valid_numbers :: "real \<Rightarrow> real \<Rightarrow> real \<Rightarrow> real \<Rightarrow> bool" where
  "valid_numbers S K T sigma \<longleftrightarrow> 0 < S \<and> 0 < K \<and> 0 < T \<and> 0 < sigma"

definition valid_type :: "string \<Rightarrow> bool" where
  "valid_type option_type \<longleftrightarrow> option_type = ''call'' \<or> option_type = ''put''"

subsection \<open>The algorithm as the specification words it\<close>

text \<open>
  The specification has an enumeration \<open>{Call, Put}\<close> where the source has the strings
  \<open>'call'\<close> and \<open>'put'\<close>, and gives the result in its steps 3, 5, 6, 7 and 9.
  \<open>spec_price\<close> follows those steps word for word; it is compared with the source's
  function below.
\<close>

datatype option_kind = Call | Put

fun kind_name :: "option_kind \<Rightarrow> string" where
  "kind_name Call = ''call''"
| "kind_name Put = ''put''"

definition spec_price :: "real \<Rightarrow> real \<Rightarrow> real \<Rightarrow> real \<Rightarrow> real \<Rightarrow> option_kind \<Rightarrow> real" where
  "spec_price spot strike timeToExpiry riskFreeRate volatility optionType =
    (let u = exp (volatility * sqrt timeToExpiry);
         d = exp (- volatility * sqrt timeToExpiry);
         Su = spot * u;
         Sd = spot * d;
         fu = (case optionType of Call \<Rightarrow> max (Su - strike) 0 | Put \<Rightarrow> max (strike - Su) 0);
         fd = (case optionType of Call \<Rightarrow> max (Sd - strike) 0 | Put \<Rightarrow> max (strike - Sd) 0);
         p = (exp (riskFreeRate * timeToExpiry) - d) / (u - d);
         discount = exp (- riskFreeRate * timeToExpiry)
     in py_round (discount * (p * fu + (1 - p) * fd)) 2)"

section \<open>The function in double precision\<close>

text \<open>
  The second reading keeps the arithmetic of the source: every number is an IEEE 754
  binary64 value and every operation rounds to nearest, ties to even, overflows to an
  infinity and propagates NaN. It is the reading in which the claims are tested on the
  program: where a statement is true of the reals only, the input that separates the two
  readings is evaluated here.

  A value is a finite real, an infinity or NaN. The sign of a zero is not tracked: no
  comparison of the source tells \<open>-0.0\<close> from \<open>0.0\<close>, and the only division whose divisor
  could be a zero, by \<open>u - d\<close>, comes after the test \<open>u == d\<close>. \<open>np.exp\<close> and \<open>np.sqrt\<close>
  are taken as correctly rounded; the evaluations of the function below rest on overflow,
  underflow and bounds by powers of two, none on the last bit of an exponential.
\<close>

subsection \<open>Values and rounding\<close>

datatype f64 = Fin real | PInf | NInf | NaN

definition pow2 :: "int \<Rightarrow> real" where
  "pow2 k = 2 powr of_int k"

text \<open>
  \<open>binade x\<close> is the exponent of the binade that holds \<open>x\<close>, not below that of the
  subnormal numbers; \<open>ulp x\<close> is the spacing of the doubles there (53 significant bits).
  \<open>rnd\<close> rounds a real to the nearest double, the tie to the even significand, and to an
  infinity when the rounded magnitude reaches \<open>2 ^ 1024\<close>.
\<close>

definition binade :: "real \<Rightarrow> int" where
  "binade x = (if x = 0 then - 1022 else max \<lfloor>log 2 \<bar>x\<bar>\<rfloor> (- 1022))"

definition ulp :: "real \<Rightarrow> real" where
  "ulp x = pow2 (binade x - 52)"

definition rnd :: "real \<Rightarrow> f64" where
  "rnd x = (let y = of_int (rint (x / ulp x)) * ulp x in
     if pow2 1024 \<le> y then PInf else if y \<le> - pow2 1024 then NInf else Fin y)"

subsection \<open>Operations\<close>

definition signed_inf :: "real \<Rightarrow> f64" where
  "signed_inf s = (if 0 < s then PInf else if s < 0 then NInf else NaN)"

fun fneg :: "f64 \<Rightarrow> f64" where
  "fneg (Fin a) = Fin (- a)"
| "fneg PInf = NInf"
| "fneg NInf = PInf"
| "fneg NaN = NaN"

fun fabs :: "f64 \<Rightarrow> f64" where
  "fabs (Fin a) = Fin \<bar>a\<bar>"
| "fabs PInf = PInf"
| "fabs NInf = PInf"
| "fabs NaN = NaN"

fun fadd :: "f64 \<Rightarrow> f64 \<Rightarrow> f64" where
  "fadd NaN y = NaN"
| "fadd x NaN = NaN"
| "fadd (Fin a) (Fin b) = rnd (a + b)"
| "fadd PInf NInf = NaN"
| "fadd NInf PInf = NaN"
| "fadd PInf y = PInf"
| "fadd x PInf = PInf"
| "fadd NInf y = NInf"
| "fadd x NInf = NInf"

definition fsub :: "f64 \<Rightarrow> f64 \<Rightarrow> f64" where
  "fsub x y = fadd x (fneg y)"

fun fmul :: "f64 \<Rightarrow> f64 \<Rightarrow> f64" where
  "fmul NaN y = NaN"
| "fmul x NaN = NaN"
| "fmul (Fin a) (Fin b) = rnd (a * b)"
| "fmul (Fin a) PInf = signed_inf a"
| "fmul (Fin a) NInf = signed_inf (- a)"
| "fmul PInf (Fin b) = signed_inf b"
| "fmul NInf (Fin b) = signed_inf (- b)"
| "fmul PInf PInf = PInf"
| "fmul NInf NInf = PInf"
| "fmul PInf NInf = NInf"
| "fmul NInf PInf = NInf"

text \<open>A division by a zero is a division by \<open>+0\<close>; \<open>numpy\<close> warns and does not raise.\<close>

fun fdiv :: "f64 \<Rightarrow> f64 \<Rightarrow> f64" where
  "fdiv NaN y = NaN"
| "fdiv x NaN = NaN"
| "fdiv (Fin a) (Fin b) = (if b = 0 then signed_inf a else rnd (a / b))"
| "fdiv (Fin a) y = Fin 0"
| "fdiv PInf (Fin b) = (if b < 0 then NInf else PInf)"
| "fdiv NInf (Fin b) = (if b < 0 then PInf else NInf)"
| "fdiv x y = NaN"

fun fsqrt :: "f64 \<Rightarrow> f64" where
  "fsqrt (Fin a) = (if a < 0 then NaN else rnd (sqrt a))"
| "fsqrt PInf = PInf"
| "fsqrt NInf = NaN"
| "fsqrt NaN = NaN"

fun fexp :: "f64 \<Rightarrow> f64" where
  "fexp (Fin a) = rnd (exp a)"
| "fexp PInf = PInf"
| "fexp NInf = Fin 0"
| "fexp NaN = NaN"

text \<open>\<open>rint\<close> on a double: the nearest integer, the tie to the even one.\<close>

fun frint :: "f64 \<Rightarrow> f64" where
  "frint (Fin a) = Fin (of_int (rint a))"
| "frint x = x"

text \<open>The comparisons: each is false when an operand is NaN.\<close>

fun flt :: "f64 \<Rightarrow> f64 \<Rightarrow> bool" where
  "flt NaN y = False"
| "flt x NaN = False"
| "flt (Fin a) (Fin b) = (a < b)"
| "flt PInf y = False"
| "flt x PInf = True"
| "flt NInf NInf = False"
| "flt NInf y = True"
| "flt x NInf = False"

fun fle :: "f64 \<Rightarrow> f64 \<Rightarrow> bool" where
  "fle NaN y = False"
| "fle x NaN = False"
| "fle (Fin a) (Fin b) = (a \<le> b)"
| "fle NInf y = True"
| "fle x PInf = True"
| "fle x y = False"

fun feq :: "f64 \<Rightarrow> f64 \<Rightarrow> bool" where
  "feq NaN y = False"
| "feq x NaN = False"
| "feq x y = (x = y)"

text \<open>
  Python's \<open>max(a, b)\<close> keeps \<open>a\<close> unless \<open>b > a\<close>, so \<open>max(nan, 0)\<close> is \<open>nan\<close>.
\<close>

definition py_max :: "f64 \<Rightarrow> f64 \<Rightarrow> f64" where
  "py_max a b = (if flt a b then b else a)"

text \<open>
  \<open>round\<close> on a \<open>numpy.float64\<close> with a number of decimals: scale, \<open>rint\<close>, scale
  back, each step in doubles.
\<close>

definition np_round :: "f64 \<Rightarrow> nat \<Rightarrow> f64" where
  "np_round x ndigits = fdiv (frint (fmul x (Fin (10 ^ ndigits)))) (Fin (10 ^ ndigits))"

subsection \<open>The pricer\<close>

definition binomial_one_step_f64 ::
  "f64 \<Rightarrow> f64 \<Rightarrow> f64 \<Rightarrow> f64 \<Rightarrow> f64 \<Rightarrow> string \<Rightarrow> py_error + f64" where
  "binomial_one_step_f64 S K T r sigma option_type =
    (if option_type \<notin> set [''call'', ''put''] then Inl (ValueError msg_option_type)
     else if fle S (Fin 0) \<or> fle K (Fin 0) \<or> fle T (Fin 0) \<or> fle sigma (Fin 0)
       then Inl (ValueError msg_positive)
     else
       let u = fexp (fmul sigma (fsqrt T));
           d = fexp (fmul (fneg sigma) (fsqrt T))
       in if feq u d then Inl (ValueError msg_equal_factors)
       else
         let S_u = fmul S u;
             S_d = fmul S d;
             f_u = (if option_type = ''call'' then py_max (fsub S_u K) (Fin 0)
                    else py_max (fsub K S_u) (Fin 0));
             f_d = (if option_type = ''call'' then py_max (fsub S_d K) (Fin 0)
                    else py_max (fsub K S_d) (Fin 0));
             p = fdiv (fsub (fexp (fmul r T)) d) (fsub u d)
         in if flt p (Fin 0) \<or> flt (Fin 1) p then Inl (ValueError msg_no_arbitrage)
         else
           let discount = fexp (fmul (fneg r) T);
               option_price = fmul discount (fadd (fmul p f_u) (fmul (fsub (Fin 1) p) f_d))
           in Inr (np_round option_price 2))"

subsection \<open>The quantities of the algorithm in double precision\<close>

definition up_f64 :: "f64 \<Rightarrow> f64 \<Rightarrow> f64" where
  "up_f64 sigma T = fexp (fmul sigma (fsqrt T))"

definition down_f64 :: "f64 \<Rightarrow> f64 \<Rightarrow> f64" where
  "down_f64 sigma T = fexp (fmul (fneg sigma) (fsqrt T))"

definition p_f64 :: "f64 \<Rightarrow> f64 \<Rightarrow> f64 \<Rightarrow> f64" where
  "p_f64 T r sigma =
     fdiv (fsub (fexp (fmul r T)) (down_f64 sigma T)) (fsub (up_f64 sigma T) (down_f64 sigma T))"

definition payoff_f64 :: "string \<Rightarrow> f64 \<Rightarrow> f64 \<Rightarrow> f64" where
  "payoff_f64 option_type K S_T =
     (if option_type = ''call'' then py_max (fsub S_T K) (Fin 0) else py_max (fsub K S_T) (Fin 0))"

definition price_f64 :: "f64 \<Rightarrow> f64 \<Rightarrow> f64 \<Rightarrow> f64 \<Rightarrow> f64 \<Rightarrow> string \<Rightarrow> f64" where
  "price_f64 S K T r sigma option_type =
     fmul (fexp (fmul (fneg r) T))
       (fadd (fmul (p_f64 T r sigma) (payoff_f64 option_type K (fmul S (up_f64 sigma T))))
             (fmul (fsub (Fin 1) (p_f64 T r sigma))
                   (payoff_f64 option_type K (fmul S (down_f64 sigma T)))))"

definition not_positive :: "f64 \<Rightarrow> f64 \<Rightarrow> f64 \<Rightarrow> f64 \<Rightarrow> bool" where
  "not_positive S K T sigma \<longleftrightarrow>
     fle S (Fin 0) \<or> fle K (Fin 0) \<or> fle T (Fin 0) \<or> fle sigma (Fin 0)"

definition nonneg_or_nan :: "f64 \<Rightarrow> bool" where
  "nonneg_or_nan v \<longleftrightarrow> v = NaN \<or> fle (Fin 0) v"

text \<open>
  The parity test as a caller computes it on the two returned prices:
  \<open>abs(call - put - (S - K * np.exp(-r * T))) <= 0.01\<close>.
\<close>

definition parity_check :: "f64 \<Rightarrow> f64 \<Rightarrow> f64 \<Rightarrow> f64 \<Rightarrow> f64 \<Rightarrow> f64 \<Rightarrow> bool" where
  "parity_check call put S K T r \<longleftrightarrow>
     fle (fabs (fsub (fsub call put) (fsub S (fmul K (fexp (fmul (fneg r) T))))))
         (rnd (1 / 100))"

text \<open>A double between two powers of two: the form of the bounds in the evaluations.\<close>

definition in_range :: "int \<Rightarrow> int \<Rightarrow> f64 \<Rightarrow> bool" where
  "in_range a b v = (case v of Fin y \<Rightarrow> pow2 a \<le> y \<and> y \<le> pow2 b | _ \<Rightarrow> False)"

section \<open>Properties\<close>

subsection \<open>Unfolding the function body\<close>

lemma binomial_one_step_unfold:
  "binomial_one_step S K T r sigma option_type =
    (if \<not> valid_type option_type then Inl (ValueError msg_option_type)
     else if \<not> valid_numbers S K T sigma then Inl (ValueError msg_positive)
     else if up_factor sigma T = down_factor sigma T then Inl (ValueError msg_equal_factors)
     else if risk_neutral_p T r sigma < 0 \<or> 1 < risk_neutral_p T r sigma
       then Inl (ValueError msg_no_arbitrage)
     else Inr (py_round (expected_value S K T r sigma option_type) 2))"
  by (simp add: binomial_one_step_def valid_type_def valid_numbers_def up_factor_def
      down_factor_def risk_neutral_p_def expected_value_def payoff_def Let_def not_less)

lemma msgs_distinct:
  "msg_option_type \<noteq> msg_positive" "msg_option_type \<noteq> msg_equal_factors"
  "msg_option_type \<noteq> msg_no_arbitrage" "msg_positive \<noteq> msg_equal_factors"
  "msg_positive \<noteq> msg_no_arbitrage" "msg_equal_factors \<noteq> msg_no_arbitrage"
  by (simp_all add: msg_option_type_def msg_positive_def msg_equal_factors_def
      msg_no_arbitrage_def)

lemma category_simps:
  "category (ValueError msg_option_type) = Some InvalidArgument"
  "category (ValueError msg_positive) = Some InvalidArgument"
  "category (ValueError msg_equal_factors) = Some DegenerateModel"
  "category (ValueError msg_no_arbitrage) = Some ArbitrageViolation"
  using msgs_distinct by (simp_all add: category_def)

lemma raises_simps:
  "raises (Inl (ValueError msg_option_type)) c \<longleftrightarrow> c = InvalidArgument"
  "raises (Inl (ValueError msg_positive)) c \<longleftrightarrow> c = InvalidArgument"
  "raises (Inl (ValueError msg_equal_factors)) c \<longleftrightarrow> c = DegenerateModel"
  "raises (Inl (ValueError msg_no_arbitrage)) c \<longleftrightarrow> c = ArbitrageViolation"
  "raises (Inr v) c \<longleftrightarrow> False"
  by (auto simp: raises_def category_simps)

subsection \<open>Rounding\<close>

lemma rint_error: "\<bar>real_of_int (rint x) - x\<bar> \<le> 1 / 2"
proof -
  have "of_int \<lfloor>x\<rfloor> \<le> x" "x < of_int \<lfloor>x\<rfloor> + 1" by linarith+
  then show ?thesis by (auto simp: rint_def Let_def)
qed

lemma rint_of_int: "rint (of_int n) = n"
  by (simp add: rint_def)

lemma rint_nonneg: "0 \<le> x \<Longrightarrow> 0 \<le> rint x"
  by (auto simp: rint_def Let_def)

lemma py_round_error: "\<bar>py_round x 2 - x\<bar> \<le> 1 / 200"
proof -
  have "\<bar>real_of_int (rint (x * 100)) - x * 100\<bar> \<le> 1 / 2" by (rule rint_error)
  then show ?thesis by (simp add: py_round_def field_simps abs_le_iff)
qed

lemma py_round_nonneg: "0 \<le> x \<Longrightarrow> 0 \<le> py_round x n"
  by (simp add: py_round_def rint_nonneg)



lemma py_round_examples:
  "py_round (1 / 8) 2 = 12 / 100" "py_round (3 / 8) 2 = 38 / 100"
  "py_round (4621 / 100 + 1 / 1000) 2 = 4621 / 100"
proof -
  have "\<lfloor>25 / 2 :: real\<rfloor> = 12" "\<lfloor>75 / 2 :: real\<rfloor> = 37" "\<lfloor>46211 / 10 :: real\<rfloor> = 4621"
    by linarith+
  then show "py_round (1 / 8) 2 = 12 / 100" "py_round (3 / 8) 2 = 38 / 100"
    "py_round (4621 / 100 + 1 / 1000) 2 = 4621 / 100"
    by (simp_all add: py_round_def rint_def Let_def)
qed

subsection \<open>The factors and the risk-neutral probability\<close>

lemma factors_order:
  assumes "0 < sigma" "0 < T"
  shows "down_factor sigma T < 1" "1 < up_factor sigma T"
proof -
  have "0 < sigma * sqrt T" using assms by simp
  then show "down_factor sigma T < 1" "1 < up_factor sigma T"
    by (simp_all add: down_factor_def up_factor_def)
qed

lemma p_nonneg_iff:
  assumes "0 < sigma" "0 < T"
  shows "0 \<le> risk_neutral_p T r sigma \<longleftrightarrow> - (sigma * sqrt T) \<le> r * T"
proof -
  have "0 < up_factor sigma T - down_factor sigma T"
    using factors_order[OF assms] by linarith
  then have "0 \<le> risk_neutral_p T r sigma \<longleftrightarrow> down_factor sigma T \<le> exp (r * T)"
    by (simp add: risk_neutral_p_def zero_le_divide_iff)
  then show ?thesis by (simp add: down_factor_def)
qed

lemma p_le_one_iff:
  assumes "0 < sigma" "0 < T"
  shows "risk_neutral_p T r sigma \<le> 1 \<longleftrightarrow> r * T \<le> sigma * sqrt T"
proof -
  have "0 < up_factor sigma T - down_factor sigma T"
    using factors_order[OF assms] by linarith
  then have "risk_neutral_p T r sigma \<le> 1 \<longleftrightarrow> exp (r * T) \<le> up_factor sigma T"
    by (simp add: risk_neutral_p_def divide_le_eq)
  then show ?thesis by (simp add: up_factor_def)
qed

subsection \<open>The expected value\<close>

lemma forward_price:
  assumes "up_factor sigma T \<noteq> down_factor sigma T"
  shows "risk_neutral_p T r sigma * up_factor sigma T
         + (1 - risk_neutral_p T r sigma) * down_factor sigma T = exp (r * T)"
proof -
  have "risk_neutral_p T r sigma * (up_factor sigma T - down_factor sigma T)
        = exp (r * T) - down_factor sigma T"
    using assms by (simp add: risk_neutral_p_def)
  then show ?thesis by (simp add: algebra_simps)
qed

lemma discounted_forward:
  assumes "up_factor sigma T \<noteq> down_factor sigma T"
  shows "exp (- r * T) * (risk_neutral_p T r sigma * (S * up_factor sigma T - K)
         + (1 - risk_neutral_p T r sigma) * (S * down_factor sigma T - K))
         = S - K * exp (- r * T)"
proof -
  let ?p = "risk_neutral_p T r sigma"
  have "?p * (S * up_factor sigma T - K) + (1 - ?p) * (S * down_factor sigma T - K)
        = S * (?p * up_factor sigma T + (1 - ?p) * down_factor sigma T) - K"
    by (simp add: algebra_simps)
  also have "\<dots> = S * exp (r * T) - K" by (simp only: forward_price[OF assms])
  finally have "exp (- r * T) * (?p * (S * up_factor sigma T - K) + (1 - ?p) * (S * down_factor sigma T - K))
     = exp (- r * T) * (S * exp (r * T) - K)" by simp
  also have "\<dots> = S * (exp (- r * T) * exp (r * T)) - K * exp (- r * T)"
    by (simp add: algebra_simps)
  also have "exp (- r * T) * exp (r * T) = 1" by (simp add: exp_minus)
  finally show ?thesis by simp
qed

lemma parity_unrounded:
  assumes "up_factor sigma T \<noteq> down_factor sigma T"
  shows "expected_value S K T r sigma ''call'' - expected_value S K T r sigma ''put''
         = S - K * exp (- r * T)"
proof -
  have pay: "payoff ''call'' K x - payoff ''put'' K x = x - K" for x
    by (simp add: payoff_def max_def)
  let ?p = "risk_neutral_p T r sigma"
  have "expected_value S K T r sigma ''call'' - expected_value S K T r sigma ''put''
      = exp (- r * T) * (?p * (payoff ''call'' K (S * up_factor sigma T) - payoff ''put'' K (S * up_factor sigma T))
         + (1 - ?p) * (payoff ''call'' K (S * down_factor sigma T) - payoff ''put'' K (S * down_factor sigma T)))"
    by (simp add: expected_value_def algebra_simps)
  also have "\<dots> = exp (- r * T) * (?p * (S * up_factor sigma T - K)
         + (1 - ?p) * (S * down_factor sigma T - K))"
    by (simp only: pay)
  finally show ?thesis by (simp only: discounted_forward[OF assms])
qed

lemma expected_value_nonneg:
  assumes "0 \<le> risk_neutral_p T r sigma" "risk_neutral_p T r sigma \<le> 1"
  shows "0 \<le> expected_value S K T r sigma option_type"
proof -
  have "0 \<le> payoff option_type K x" for x by (simp add: payoff_def)
  then show ?thesis using assms by (simp add: expected_value_def)
qed

subsection \<open>When the function returns\<close>

lemma binomial_one_step_success:
  assumes "valid_type option_type" "valid_numbers S K T sigma"
    and "- (sigma * sqrt T) \<le> r * T" "r * T \<le> sigma * sqrt T"
  shows "binomial_one_step S K T r sigma option_type
         = Inr (py_round (expected_value S K T r sigma option_type) 2)"
proof -
  have pos: "0 < sigma" "0 < T" using assms(2) by (simp_all add: valid_numbers_def)
  have "up_factor sigma T \<noteq> down_factor sigma T"
    using factors_order[OF pos] by linarith
  moreover have "0 \<le> risk_neutral_p T r sigma" "risk_neutral_p T r sigma \<le> 1"
    using assms(3,4) by (simp_all add: p_nonneg_iff[OF pos] p_le_one_iff[OF pos])
  ultimately show ?thesis
    using assms(1,2) by (simp add: binomial_one_step_unfold not_less)
qed

lemma binomial_one_step_Inr:
  assumes "binomial_one_step S K T r sigma option_type = Inr v"
  shows "valid_type option_type" "valid_numbers S K T sigma"
    "up_factor sigma T \<noteq> down_factor sigma T"
    "0 \<le> risk_neutral_p T r sigma" "risk_neutral_p T r sigma \<le> 1"
    "v = py_round (expected_value S K T r sigma option_type) 2"
  using assms by (auto simp: binomial_one_step_unfold split: if_splits)

lemma spec_price_eq:
  "spec_price S K T r sigma k = py_round (expected_value S K T r sigma (kind_name k)) 2"
  by (cases k) (simp_all add: spec_price_def expected_value_def payoff_def up_factor_def
      down_factor_def risk_neutral_p_def Let_def)

lemma binomial_one_step_nonneg:
  assumes "binomial_one_step S K T r sigma option_type = Inr v"
  shows "0 \<le> v"
  using binomial_one_step_Inr[OF assms] by (simp add: py_round_nonneg expected_value_nonneg)

subsection \<open>Calls deep in and deep out of the money\<close>



subsection \<open>Example inputs\<close>

lemma example_valid:
  "valid_numbers 100 100 1 1" "valid_numbers 1 100 1 1" "valid_numbers 100 1 1 1"
  "valid_numbers 100 90 1 1"
  by (simp_all add: valid_numbers_def)

lemma example_arbitrage:
  "risk_neutral_p 1 2 1 < 0 \<or> 1 < risk_neutral_p 1 2 1"
proof -
  have "\<not> risk_neutral_p 1 2 1 \<le> 1" by (simp add: p_le_one_iff)
  then show ?thesis by simp
qed

section \<open>Properties of the double-precision reading\<close>

subsection \<open>Rounding to a double\<close>

lemma pow2_pos: "0 < pow2 k"
  by (simp add: pow2_def)

lemma pow2_le_iff: "pow2 a \<le> pow2 b \<longleftrightarrow> a \<le> b"
  by (simp add: pow2_def)

lemma pow2_less_iff: "pow2 a < pow2 b \<longleftrightarrow> a < b"
  by (simp add: pow2_def)

lemma pow2_add: "pow2 (a + b) = pow2 a * pow2 b"
  by (simp add: pow2_def powr_add)

lemma pow2_nat: "pow2 (int n) = 2 ^ n"
  by (simp add: pow2_def powr_realpow)

lemma pow2_neg: "pow2 (- int n) = 1 / 2 ^ n"
  by (simp add: pow2_def powr_minus powr_realpow divide_inverse)

lemma pow2_0: "pow2 0 = 1"
  by (simp add: pow2_def)

lemma pow2_shift: "pow2 n * pow2 (k - n) = pow2 k"
  using pow2_add[of n "k - n"] by simp

lemma ulp_pos: "0 < ulp x"
  by (simp add: ulp_def pow2_pos)

lemma rint_mono_lower: "of_int n \<le> x \<Longrightarrow> n \<le> rint x"
proof -
  assume "of_int n \<le> x"
  then have "n \<le> \<lfloor>x\<rfloor>" by (simp add: le_floor_iff)
  then show ?thesis by (auto simp: rint_def Let_def)
qed

lemma rint_mono_upper: "x \<le> of_int n \<Longrightarrow> rint x \<le> n"
proof -
  assume a: "x \<le> of_int n"
  show ?thesis
  proof (cases "x = of_int n")
    case True
    then show ?thesis by (simp add: rint_of_int)
  next
    case False
    then have "x < of_int n" using a by simp
    then have "\<lfloor>x\<rfloor> < n" by (simp add: floor_less_iff)
    then show ?thesis by (auto simp: rint_def Let_def)
  qed
qed

lemma rint_near:
  assumes "\<bar>x - of_int n\<bar> < 1 / 2"
  shows "rint x = n"
proof -
  have "\<lfloor>x\<rfloor> = n \<or> \<lfloor>x\<rfloor> = n - 1" using assms by linarith
  then show ?thesis
  proof
    assume f: "\<lfloor>x\<rfloor> = n"
    then have "x - of_int n < 1 / 2" using assms by linarith
    then show ?thesis by (simp add: rint_def f)
  next
    assume f: "\<lfloor>x\<rfloor> = n - 1"
    have "- (1 / 2) < x - of_int n" using assms by linarith
    then have "1 / 2 < x - of_int (n - 1)" by simp
    then show ?thesis by (simp add: rint_def f)
  qed
qed

lemma floor_log2_bounds:
  assumes "0 < x"
  shows "pow2 \<lfloor>log 2 x\<rfloor> \<le> x" "x < pow2 (\<lfloor>log 2 x\<rfloor> + 1)"
  using floor_log_eq_powr_iff[of x 2 "\<lfloor>log 2 x\<rfloor>"] assms by (simp_all add: pow2_def)

lemma binade_eq:
  assumes "pow2 k \<le> \<bar>x\<bar>" "\<bar>x\<bar> < pow2 (k + 1)" "- 1022 \<le> k"
  shows "binade x = k"
proof -
  have pos: "0 < \<bar>x\<bar>" using assms(1) pow2_pos[of k] by linarith
  then have "\<lfloor>log 2 \<bar>x\<bar>\<rfloor> = k"
    using assms(1,2) by (simp add: floor_log_eq_powr_iff pow2_def)
  then show ?thesis using assms(3) pos by (simp add: binade_def)
qed

lemma binade_small:
  assumes "\<bar>x\<bar> < pow2 (- 1022)"
  shows "binade x = - 1022"
proof (cases "x = 0")
  case True
  then show ?thesis by (simp add: binade_def)
next
  case False
  then have pos: "0 < \<bar>x\<bar>" by simp
  have "pow2 \<lfloor>log 2 \<bar>x\<bar>\<rfloor> < pow2 (- 1022)"
    using floor_log2_bounds(1)[OF pos] assms by linarith
  then have "\<lfloor>log 2 \<bar>x\<bar>\<rfloor> < - 1022" by (simp only: pow2_less_iff)
  then show ?thesis using False by (simp add: binade_def)
qed

lemma rnd_zero: "rnd 0 = Fin 0"
  using pow2_pos[of 1024] by (simp add: rnd_def rint_def)

lemma rnd_underflow:
  assumes "\<bar>x\<bar> < pow2 (- 1075)"
  shows "rnd x = Fin 0"
proof -
  have "pow2 (- 1075) \<le> pow2 (- 1022)" by (simp only: pow2_le_iff)
  then have b: "binade x = - 1022" using assms by (intro binade_small) linarith
  then have u: "ulp x = pow2 (- 1074)" by (simp add: ulp_def)
  have "pow2 (- 1075) = pow2 (- 1074) * pow2 (- 1)"
    by (simp only: pow2_add [symmetric]) simp
  also have "pow2 (- 1) = 1 / 2" using pow2_neg[of 1] by simp
  finally have "\<bar>x\<bar> < pow2 (- 1074) * (1 / 2)" using assms by simp
  then have "\<bar>x / ulp x\<bar> < 1 / 2"
    using pow2_pos[of "- 1074"] by (simp add: u field_simps)
  then have "rint (x / ulp x) = 0"
    using rint_near[of "x / ulp x" 0] by simp
  then show ?thesis using pow2_pos[of 1024] by (simp add: rnd_def)
qed

lemma rnd_nonneg:
  assumes "0 \<le> x"
  shows "rnd x = PInf \<or> (\<exists>y. rnd x = Fin y \<and> 0 \<le> y)"
proof -
  have "0 \<le> x / ulp x" using assms ulp_pos[of x] by simp
  then have "0 \<le> rint (x / ulp x)" by (rule rint_nonneg)
  then have "0 \<le> real_of_int (rint (x / ulp x)) * ulp x"
    using ulp_pos[of x] by simp
  then show ?thesis using pow2_pos[of 1024] by (simp add: rnd_def Let_def)
qed

lemma quotient_of_product: "x = c * u \<Longrightarrow> 0 < u \<Longrightarrow> x / u = (c::real)"
  by simp

lemma scaled_bounds:
  assumes "pow2 k \<le> x" "x < pow2 (k + 1)"
  shows "2 ^ 52 \<le> x / pow2 (k - 52)" "x / pow2 (k - 52) < 2 ^ 53"
proof -
  have a: "pow2 k = 2 ^ 52 * pow2 (k - 52)"
    using pow2_shift[of 52 k] pow2_nat[of 52] by simp
  have b: "pow2 (k + 1) = 2 ^ 53 * pow2 (k - 52)"
    using pow2_shift[of 53 "k + 1"] pow2_nat[of 53] by simp
  show "2 ^ 52 \<le> x / pow2 (k - 52)"
    using assms(1) pow2_pos[of "k - 52"] unfolding a by (simp only: pos_le_divide_eq)
  show "x / pow2 (k - 52) < 2 ^ 53"
    using assms(2) pow2_pos[of "k - 52"] unfolding b by (simp only: pos_divide_less_eq)
qed

lemma rnd_overflow:
  assumes "pow2 1024 \<le> x"
  shows "rnd x = PInf"
proof -
  define k where "k = \<lfloor>log 2 x\<rfloor>"
  have pos: "0 < x" using assms pow2_pos[of 1024] by linarith
  have kb: "pow2 k \<le> x" "x < pow2 (k + 1)"
    using floor_log2_bounds[OF pos] by (simp_all add: k_def)
  have "pow2 1024 < pow2 (k + 1)" using assms kb(2) by linarith
  then have k: "1024 \<le> k" by (simp only: pow2_less_iff)
  have b: "binade x = k"
    using binade_eq[of k x] kb pos k by simp
  have u: "ulp x = pow2 (k - 52)" by (simp add: ulp_def b)
  have "real_of_int (2 ^ 52) \<le> x / ulp x"
    using scaled_bounds(1)[OF kb] by (simp only: u of_int_power of_int_numeral)
  then have "2 ^ 52 \<le> rint (x / ulp x)" by (rule rint_mono_lower)
  then have "real_of_int (2 ^ 52) \<le> of_int (rint (x / ulp x))" by (simp only: of_int_le_iff)
  then have "2 ^ 52 * ulp x \<le> of_int (rint (x / ulp x)) * ulp x"
    using ulp_pos[of x] by (simp only: of_int_power of_int_numeral mult_le_cancel_right_pos)
  moreover have "2 ^ 52 * ulp x = pow2 k"
    using pow2_shift[of 52 k] pow2_nat[of 52] by (simp add: u)
  moreover have "pow2 1024 \<le> pow2 k" using k by (simp only: pow2_le_iff)
  ultimately have "pow2 1024 \<le> of_int (rint (x / ulp x)) * ulp x" by linarith
  then show ?thesis by (simp add: rnd_def Let_def)
qed

lemma rnd_bracket:
  assumes "pow2 a \<le> x" "x \<le> pow2 b" "- 1022 \<le> a" "b \<le> 1023"
  shows "\<exists>y. rnd x = Fin y \<and> pow2 a \<le> y \<and> y \<le> pow2 b"
proof -
  define k where "k = \<lfloor>log 2 x\<rfloor>"
  have pos: "0 < x" using assms(1) pow2_pos[of a] by linarith
  have kb: "pow2 k \<le> x" "x < pow2 (k + 1)"
    using floor_log2_bounds[OF pos] by (simp_all add: k_def)
  have "pow2 a < pow2 (k + 1)" using assms(1) kb(2) by linarith
  then have ak: "a \<le> k" by (simp only: pow2_less_iff)
  have "pow2 k \<le> pow2 b" using assms(2) kb(1) by linarith
  then have kb': "k \<le> b" by (simp only: pow2_le_iff)
  have b: "binade x = k"
    using binade_eq[of k x] kb pos ak assms(3) by simp
  have u: "ulp x = pow2 (k - 52)" by (simp add: ulp_def b)
  define z where "z = x / ulp x"
  define y where "y = real_of_int (rint z) * ulp x"
  have p1: "real_of_int (2 ^ 52) * ulp x = pow2 k"
    using pow2_shift[of 52 k] pow2_nat[of 52] by (simp add: u)
  have p2: "real_of_int (2 ^ 53) * ulp x = pow2 (k + 1)"
    using pow2_shift[of 53 "k + 1"] pow2_nat[of 53] by (simp add: u)
  have "real_of_int (2 ^ 52) \<le> z"
    using scaled_bounds(1)[OF kb] by (simp only: z_def u of_int_power of_int_numeral)
  then have "2 ^ 52 \<le> rint z" by (rule rint_mono_lower)
  then have lo: "real_of_int (2 ^ 52) \<le> of_int (rint z)" by (simp only: of_int_le_iff)
  have "z \<le> real_of_int (2 ^ 53)"
    using scaled_bounds(2)[OF kb] by (simp only: z_def u of_int_power of_int_numeral less_imp_le)
  then have "rint z \<le> 2 ^ 53" by (rule rint_mono_upper)
  then have hi: "of_int (rint z) \<le> real_of_int (2 ^ 53)" by (simp only: of_int_le_iff)
  have ylo: "pow2 k \<le> y"
    unfolding y_def p1 [symmetric] using lo ulp_pos[of x]
    by (simp only: mult_le_cancel_right_pos)
  have yhi: "y \<le> pow2 (k + 1)"
    unfolding y_def p2 [symmetric] using hi ulp_pos[of x]
    by (simp only: mult_le_cancel_right_pos)
  have yb: "y \<le> pow2 b"
  proof (cases "k = b")
    case True
    then have xk: "x = pow2 k" using assms(2) kb(1) by simp
    have "x = real_of_int (2 ^ 52) * ulp x" using xk p1 by linarith
    then have "z = real_of_int (2 ^ 52)"
      unfolding z_def using ulp_pos[of x] by (rule quotient_of_product)
    then have "rint z = 2 ^ 52" by (simp only: rint_of_int)
    then have "y = pow2 k" by (simp only: y_def p1)
    then show ?thesis using True by simp
  next
    case False
    then have "k + 1 \<le> b" using kb' by simp
    then have "pow2 (k + 1) \<le> pow2 b" by (simp only: pow2_le_iff)
    then show ?thesis using yhi by linarith
  qed
  have ya: "pow2 a \<le> y"
  proof -
    have "pow2 a \<le> pow2 k" using ak by (simp only: pow2_le_iff)
    then show ?thesis using ylo by linarith
  qed
  have "pow2 b < pow2 1024" using assms(4) by (simp only: pow2_less_iff)
  then have "y < pow2 1024" using yb by linarith
  moreover have "0 < y" using ya pow2_pos[of a] by linarith
  moreover have "0 < pow2 1024" by (rule pow2_pos)
  ultimately have "rnd x = Fin y"
    by (simp add: rnd_def Let_def y_def z_def)
  then show ?thesis using ya yb by blast
qed

lemma rnd_pow2:
  assumes "- 1022 \<le> a" "a \<le> 1023"
  shows "rnd (pow2 a) = Fin (pow2 a)"
  using rnd_bracket[of a "pow2 a" a] assms by auto

subsection \<open>Exact values, symmetry and bounds of the exponential\<close>

lemma rint_minus: "rint (- x) = - rint x"
proof (cases "x = of_int \<lfloor>x\<rfloor>")
  case True
  then obtain n where "x = of_int n" by blast
  then show ?thesis using rint_of_int[of n] rint_of_int[of "- n"] by simp
next
  case False
  then have lt: "of_int \<lfloor>x\<rfloor> < x" "x < of_int \<lfloor>x\<rfloor> + 1" by linarith+
  then have f: "\<lfloor>- x\<rfloor> = - \<lfloor>x\<rfloor> - 1" by linarith
  show ?thesis
    using lt by (auto simp: rint_def Let_def f)
qed

lemma binade_minus: "binade (- x) = binade x"
  by (simp add: binade_def)

lemma ulp_minus: "ulp (- x) = ulp x"
  by (simp add: ulp_def binade_minus)

lemma rnd_minus: "rnd (- x) = fneg (rnd x)"
proof -
  have "real_of_int (rint (- x / ulp x)) * ulp x = - (real_of_int (rint (x / ulp x)) * ulp x)"
    using rint_minus[of "x / ulp x"] by simp
  then show ?thesis
    using pow2_pos[of 1024] by (auto simp: rnd_def Let_def ulp_minus)
qed

lemma rnd_exact:
  assumes "x = of_int m * pow2 k" "2 ^ 52 \<le> \<bar>m\<bar>" "\<bar>m\<bar> < 2 ^ 53" "- 1074 \<le> k" "k \<le> 971"
  shows "rnd x = Fin x"
proof -
  have ax: "\<bar>x\<bar> = of_int \<bar>m\<bar> * pow2 k"
    using pow2_pos[of k] by (simp add: assms(1) abs_mult)
  have m1: "real_of_int (2 ^ 52) \<le> of_int \<bar>m\<bar>" using assms(2) by (simp only: of_int_le_iff)
  have m2: "of_int \<bar>m\<bar> < real_of_int (2 ^ 53)" using assms(3) by (simp only: of_int_less_iff)
  have p1: "real_of_int (2 ^ 52) * pow2 k = pow2 (k + 52)"
    using pow2_add[of 52 k] pow2_nat[of 52] by (simp add: add.commute)
  have p2: "real_of_int (2 ^ 53) * pow2 k = pow2 (k + 52 + 1)"
    using pow2_add[of 53 k] pow2_nat[of 53] by (simp add: add.commute)
  have lo: "pow2 (k + 52) \<le> \<bar>x\<bar>"
    unfolding ax p1 [symmetric] using m1 pow2_pos[of k] by (simp only: mult_le_cancel_right_pos)
  have hi: "\<bar>x\<bar> < pow2 (k + 52 + 1)"
    unfolding ax p2 [symmetric] using m2 pow2_pos[of k] by (simp only: mult_less_cancel_right_pos)
  have b: "binade x = k + 52" using binade_eq[OF lo hi] assms(4) by simp
  have u: "ulp x = pow2 k" by (simp add: ulp_def b)
  have q: "x / pow2 k = of_int m"
    using assms(1) pow2_pos[of k] by (rule quotient_of_product)
  have r: "rint (x / pow2 k) = m" by (simp only: q rint_of_int)
  have y: "real_of_int (rint (x / ulp x)) * ulp x = x"
    by (simp only: u r assms(1) [symmetric])
  have "pow2 (k + 52 + 1) \<le> pow2 1024" using assms(5) by (simp only: pow2_le_iff)
  then have "\<bar>x\<bar> < pow2 1024" using hi by linarith
  then have "\<not> pow2 1024 \<le> x" "\<not> x \<le> - pow2 1024" by linarith+
  then show ?thesis by (simp add: rnd_def Let_def y)
qed

lemma rnd_one: "rnd 1 = Fin 1"
  using rnd_pow2[of 0] by (simp add: pow2_0)

lemma rnd_one_above:
  assumes "1 \<le> x" "x < 1 + pow2 (- 53)"
  shows "rnd x = Fin 1"
proof -
  have h: "pow2 (- 53) = 1 / 2 ^ 53" using pow2_neg[of 53] by simp
  have "pow2 0 \<le> \<bar>x\<bar>" "\<bar>x\<bar> < pow2 (0 + 1)"
    using assms pow2_nat[of 1] by (simp_all add: pow2_0 h)
  then have b: "binade x = 0" by (rule binade_eq) simp
  have u: "ulp x = 1 / 2 ^ 52" using pow2_neg[of 52] by (simp add: ulp_def b)
  have "\<bar>x / ulp x - real_of_int (2 ^ 52)\<bar> < 1 / 2"
    using assms by (simp add: u h)
  then have "rint (x / ulp x) = 2 ^ 52" by (rule rint_near)
  then have "real_of_int (rint (x / ulp x)) * ulp x = 1" by (simp add: u)
  moreover have "1 < pow2 1024" using pow2_less_iff[of 0 1024] by (simp add: pow2_0)
  ultimately show ?thesis by (simp add: rnd_def Let_def)
qed

lemma rnd_one_below:
  assumes "1 - pow2 (- 54) < x" "x < 1"
  shows "rnd x = Fin 1"
proof -
  have h: "pow2 (- 54) = 1 / 2 ^ 54" using pow2_neg[of 54] by simp
  have "pow2 (- 1) \<le> \<bar>x\<bar>" "\<bar>x\<bar> < pow2 (- 1 + 1)"
    using assms pow2_neg[of 1] by (simp_all add: pow2_0 h)
  then have b: "binade x = - 1" by (rule binade_eq) simp
  have u: "ulp x = 1 / 2 ^ 53" using pow2_neg[of 53] by (simp add: ulp_def b)
  have "\<bar>x / ulp x - real_of_int (2 ^ 53)\<bar> < 1 / 2"
    using assms by (simp add: u h)
  then have "rint (x / ulp x) = 2 ^ 53" by (rule rint_near)
  then have "real_of_int (rint (x / ulp x)) * ulp x = 1" by (simp add: u)
  moreover have "1 < pow2 1024" using pow2_less_iff[of 0 1024] by (simp add: pow2_0)
  ultimately show ?thesis by (simp add: rnd_def Let_def)
qed

lemma rnd_100: "rnd 100 = Fin 100"
  using rnd_exact[of 100 "100 * 2 ^ 46" "- 46"] pow2_neg[of 46] by simp

lemma rnd_800: "rnd 800 = Fin 800"
  using rnd_exact[of 800 "800 * 2 ^ 43" "- 43"] pow2_neg[of 43] by simp


lemma rnd_10000: "rnd 10000 = Fin 10000"
  using rnd_exact[of 10000 "10000 * 2 ^ 39" "- 39"] pow2_neg[of 39] by simp

lemma exp_ge_pow2: "pow2 (int n) \<le> exp (real n)"
proof -
  have "(2::real) \<le> exp 1" using exp_ge_add_one_self[of 1] by simp
  then have "(2::real) ^ n \<le> exp 1 ^ n" by (intro power_mono) simp_all
  then show ?thesis using exp_of_nat_mult[of n "1::real"] by (simp add: pow2_nat)
qed

lemma exp_le_pow2: "exp (real n) \<le> pow2 (int (2 * n))"
proof -
  have "exp (1::real) \<le> 4" using exp_le by linarith
  then have "exp 1 ^ n \<le> (4::real) ^ n" by (intro power_mono) simp_all
  moreover have "(4::real) ^ n = 2 ^ (2 * n)" by (simp add: power_mult)
  ultimately have "exp 1 ^ n \<le> (2::real) ^ (2 * n)" by simp
  then show ?thesis using exp_of_nat_mult[of n "1::real"] by (simp only: pow2_nat) simp
qed

lemma exp_minus_bounds:
  "pow2 (- int (2 * n)) \<le> exp (- real n)" "exp (- real n) \<le> pow2 (- int n)"
proof -
  have a: "exp (- real n) = 1 / exp (real n)" by (simp add: exp_minus divide_inverse)
  have lo: "(2::real) ^ n \<le> exp (real n)" using exp_ge_pow2[of n] by (simp only: pow2_nat)
  have hi: "exp (real n) \<le> 2 ^ (2 * n)" using exp_le_pow2[of n] by (simp only: pow2_nat)
  show "pow2 (- int (2 * n)) \<le> exp (- real n)"
    unfolding a pow2_neg using hi by (simp add: frac_le)
  show "exp (- real n) \<le> pow2 (- int n)"
    unfolding a pow2_neg using lo by (simp add: frac_le)
qed

subsection \<open>The function body in double precision and the sign of its result\<close>

lemma binomial_one_step_f64_unfold:
  "binomial_one_step_f64 S K T r sigma option_type =
    (if \<not> valid_type option_type then Inl (ValueError msg_option_type)
     else if not_positive S K T sigma then Inl (ValueError msg_positive)
     else if feq (up_f64 sigma T) (down_f64 sigma T) then Inl (ValueError msg_equal_factors)
     else if flt (p_f64 T r sigma) (Fin 0) \<or> flt (Fin 1) (p_f64 T r sigma)
       then Inl (ValueError msg_no_arbitrage)
     else Inr (np_round (price_f64 S K T r sigma option_type) 2))"
  by (simp add: binomial_one_step_f64_def valid_type_def not_positive_def up_f64_def
      down_f64_def p_f64_def payoff_f64_def price_f64_def Let_def)

lemma nan_absorbs [simp]:
  "fmul x NaN = NaN" "fadd x NaN = NaN" "fdiv x NaN = NaN" "fsub x NaN = NaN"
  "fsub NaN x = NaN"
  by (cases x; simp add: fsub_def)+

lemma nonneg_or_nan_simps [simp]:
  "nonneg_or_nan NaN" "nonneg_or_nan PInf" "\<not> nonneg_or_nan NInf"
  "nonneg_or_nan (Fin a) \<longleftrightarrow> 0 \<le> a"
  by (simp_all add: nonneg_or_nan_def)

lemma rnd_nonneg_or_nan: "0 \<le> x \<Longrightarrow> nonneg_or_nan (rnd x)"
  using rnd_nonneg[of x] by auto

lemma signed_inf_nonneg_or_nan: "0 \<le> s \<Longrightarrow> nonneg_or_nan (signed_inf s)"
  by (simp add: signed_inf_def)

lemma fmul_nonneg_or_nan:
  assumes "nonneg_or_nan x" "nonneg_or_nan y"
  shows "nonneg_or_nan (fmul x y)"
  using assms
  by (cases x; cases y) (simp_all add: rnd_nonneg_or_nan signed_inf_nonneg_or_nan)

lemma fadd_nonneg_or_nan:
  assumes "nonneg_or_nan x" "nonneg_or_nan y"
  shows "nonneg_or_nan (fadd x y)"
  using assms by (cases x; cases y) (simp_all add: rnd_nonneg_or_nan)

lemma fexp_nonneg_or_nan: "nonneg_or_nan (fexp x)"
  by (cases x) (simp_all add: rnd_nonneg_or_nan)

lemma py_max_nonneg_or_nan: "nonneg_or_nan (py_max x (Fin 0))"
  by (cases x) (simp_all add: py_max_def)

lemma payoff_nonneg_or_nan: "nonneg_or_nan (payoff_f64 option_type K x)"
  by (simp add: payoff_f64_def py_max_nonneg_or_nan)

lemma gate_passed:
  assumes "\<not> (flt p (Fin 0) \<or> flt (Fin 1) p)"
  shows "nonneg_or_nan p" "nonneg_or_nan (fsub (Fin 1) p)"
  using assms by (cases p; simp add: fsub_def rnd_nonneg_or_nan)+

lemma np_round_nonneg_or_nan:
  assumes "nonneg_or_nan x"
  shows "nonneg_or_nan (np_round x 2)"
proof -
  have "nonneg_or_nan (fmul x (Fin 100))"
    by (rule fmul_nonneg_or_nan[OF assms]) simp
  then have "nonneg_or_nan (frint (fmul x (Fin 100)))"
    by (cases "fmul x (Fin 100)") (simp_all add: rint_nonneg)
  then have "nonneg_or_nan (fdiv (frint (fmul x (Fin 100))) (Fin 100))"
    by (cases "frint (fmul x (Fin 100))") (simp_all add: rnd_nonneg_or_nan)
  then show ?thesis by (simp add: np_round_def)
qed

lemma price_nonneg_or_nan:
  assumes "\<not> (flt (p_f64 T r sigma) (Fin 0) \<or> flt (Fin 1) (p_f64 T r sigma))"
  shows "nonneg_or_nan (price_f64 S K T r sigma option_type)"
  unfolding price_f64_def
  by (intro fmul_nonneg_or_nan fadd_nonneg_or_nan fexp_nonneg_or_nan payoff_nonneg_or_nan
      gate_passed[OF assms])

subsection \<open>Doubles between powers of two\<close>

lemma in_rangeE:
  assumes "in_range a b v"
  obtains y where "v = Fin y" "pow2 a \<le> y" "y \<le> pow2 b"
  using assms by (cases v) (simp_all add: in_range_def)

lemma in_range_Fin: "in_range a b (Fin y) \<longleftrightarrow> pow2 a \<le> y \<and> y \<le> pow2 b"
  by (simp add: in_range_def)

lemma in_range_rnd:
  assumes "pow2 a \<le> x" "x \<le> pow2 b" "- 1022 \<le> a" "b \<le> 1023"
  shows "in_range a b (rnd x)"
  using rnd_bracket[OF assms] by (auto simp: in_range_Fin)

lemma in_range_pos:
  assumes "in_range a b v"
  shows "\<not> flt v (Fin 0)" "\<not> fle v (Fin 0)" "v \<noteq> NaN" "v \<noteq> PInf"
  using assms pow2_pos[of a] by (auto elim!: in_rangeE)


lemma in_range_gt_one:
  assumes "in_range a b v" "0 < a"
  shows "flt (Fin 1) v"
proof -
  obtain y where y: "v = Fin y" "pow2 a \<le> y" using assms(1) by (rule in_rangeE)
  have "pow2 0 < pow2 a" using assms(2) by (simp only: pow2_less_iff)
  then show ?thesis using y by (simp add: pow2_0)
qed


lemma in_range_not_feq:
  assumes "in_range a b x" "in_range c d y" "d < a"
  shows "\<not> feq x y"
proof -
  obtain x' where x: "x = Fin x'" "pow2 a \<le> x'" using assms(1) by (rule in_rangeE)
  obtain y' where y: "y = Fin y'" "y' \<le> pow2 d" using assms(2) by (rule in_rangeE)
  have "pow2 d < pow2 a" using assms(3) by (simp only: pow2_less_iff)
  then show ?thesis using x y by simp
qed

lemma bracket_mult:
  assumes "pow2 a \<le> x" "x \<le> pow2 b" "pow2 c \<le> y" "y \<le> pow2 d"
  shows "pow2 (a + c) \<le> x * y" "x * y \<le> pow2 (b + d)"
proof -
  have x0: "0 \<le> x" using assms(1) pow2_pos[of a] by linarith
  have y0: "0 \<le> y" using assms(3) pow2_pos[of c] by linarith
  show "pow2 (a + c) \<le> x * y"
    unfolding pow2_add using assms(1,3) pow2_pos[of a] pow2_pos[of c]
    by (intro mult_mono) simp_all
  show "x * y \<le> pow2 (b + d)"
    unfolding pow2_add using assms(2,4) x0 y0 pow2_pos[of b]
    by (intro mult_mono) simp_all
qed

lemma in_range_fmul:
  assumes "in_range a b x" "in_range c d y" "- 1022 \<le> a + c" "b + d \<le> 1023"
  shows "in_range (a + c) (b + d) (fmul x y)"
proof -
  obtain x' where x: "x = Fin x'" "pow2 a \<le> x'" "x' \<le> pow2 b" using assms(1) by (rule in_rangeE)
  obtain y' where y: "y = Fin y'" "pow2 c \<le> y'" "y' \<le> pow2 d" using assms(2) by (rule in_rangeE)
  show ?thesis
    using in_range_rnd[OF bracket_mult[OF x(2,3) y(2,3)] assms(3,4)] by (simp add: x y)
qed


lemma in_range_fdiv:
  assumes "in_range a b x" "in_range c d y" "- 1022 \<le> a - d" "b - c \<le> 1023"
  shows "in_range (a - d) (b - c) (fdiv x y)"
proof -
  obtain x' where x: "x = Fin x'" "pow2 a \<le> x'" "x' \<le> pow2 b" using assms(1) by (rule in_rangeE)
  obtain y' where y: "y = Fin y'" "pow2 c \<le> y'" "y' \<le> pow2 d" using assms(2) by (rule in_rangeE)
  have y0: "0 < y'" using y(2) pow2_pos[of c] by linarith
  have x0: "0 < x'" using x(2) pow2_pos[of a] by linarith
  have "pow2 (a - d) * y' \<le> pow2 (a - d) * pow2 d"
    using y(3) pow2_pos[of "a - d"] by simp
  also have "\<dots> = pow2 a" using pow2_add[of "a - d" d] by simp
  finally have lo: "pow2 (a - d) \<le> x' / y'"
    using x(2) y0 by (simp add: pos_le_divide_eq)
  have "x' \<le> pow2 b" by (rule x(3))
  also have "pow2 b = pow2 (b - c) * pow2 c" using pow2_add[of "b - c" c] by simp
  also have "\<dots> \<le> pow2 (b - c) * y'" using y(2) pow2_pos[of "b - c"] by simp
  finally have hi: "x' / y' \<le> pow2 (b - c)"
    using y0 by (simp add: pos_divide_le_eq)
  show ?thesis
    using in_range_rnd[OF lo hi assms(3,4)] y0 by (simp add: x y)
qed

lemma in_range_fsub:
  assumes "in_range a b x" "in_range c d y" "d < a" "- 1021 \<le> a" "b \<le> 1023"
  shows "in_range (a - 1) b (fsub x y)"
proof -
  obtain x' where x: "x = Fin x'" "pow2 a \<le> x'" "x' \<le> pow2 b" using assms(1) by (rule in_rangeE)
  obtain y' where y: "y = Fin y'" "pow2 c \<le> y'" "y' \<le> pow2 d" using assms(2) by (rule in_rangeE)
  have y0: "0 < y'" using y(2) pow2_pos[of c] by linarith
  have "d \<le> a - 1" using assms(3) by simp
  then have "pow2 d \<le> pow2 (a - 1)" by (simp only: pow2_le_iff)
  moreover have "pow2 a = 2 * pow2 (a - 1)"
    using pow2_add[of 1 "a - 1"] pow2_nat[of 1] by simp
  ultimately have lo: "pow2 (a - 1) \<le> x' + - y'" using x(2) y(3) by linarith
  have hi: "x' + - y' \<le> pow2 b" using x(3) y0 by linarith
  have "- 1022 \<le> a - 1" using assms(4) by simp
  then show ?thesis
    using in_range_rnd[OF lo hi _ assms(5)] by (simp add: x y fsub_def)
qed

lemma in_range_fexp_nat:
  assumes "2 * n \<le> 1023"
  shows "in_range (int n) (int (2 * n)) (fexp (Fin (real n)))"
proof -
  have "int (2 * n) \<le> 1023" using assms by simp
  then show ?thesis
    using in_range_rnd[OF exp_ge_pow2[of n] exp_le_pow2[of n]] by simp
qed

lemma in_range_fexp_minus_nat:
  assumes "2 * n \<le> 1022"
  shows "in_range (- int (2 * n)) (- int n) (fexp (Fin (- real n)))"
proof -
  have "- 1022 \<le> - int (2 * n)" "- int n \<le> 1023" using assms by simp_all
  then show ?thesis
    using in_range_rnd[OF exp_minus_bounds[of n]] by simp
qed

lemma fexp_overflow:
  assumes "1024 \<le> n"
  shows "fexp (Fin (real n)) = PInf"
proof -
  have "pow2 1024 \<le> pow2 (int n)" using assms by (simp only: pow2_le_iff)
  then have "pow2 1024 \<le> exp (real n)" using exp_ge_pow2[of n] by linarith
  then show ?thesis by (simp add: rnd_overflow)
qed

lemma fexp_zero: "fexp (Fin 0) = Fin 1"
  by (simp add: rnd_one)

lemma fsqrt_one: "fsqrt (Fin 1) = Fin 1"
  by (simp add: rnd_one)

lemma np_round_simps: "np_round NaN 2 = NaN" "np_round PInf 2 = PInf"
  by (simp_all add: np_round_def signed_inf_def)

subsection \<open>Evaluation: a volatility that overflows\<close>

lemma exp_5_ge: "pow2 7 \<le> exp 5"
proof -
  have "1 + 1 / 2 + (1 / 2)\<^sup>2 / 2 \<le> exp (1 / 2 :: real)"
    by (rule exp_lower_Taylor_quadratic) simp
  then have a: "13 / 8 \<le> exp (1 / 2 :: real)" by (simp add: power2_eq_square)
  have "(13 / 8 :: real) ^ 10 \<le> exp (1 / 2) ^ 10"
    using a by (intro power_mono) simp_all
  moreover have "(2::real) ^ 7 \<le> (13 / 8) ^ 10" by (simp add: power_divide)
  moreover have "exp (1 / 2 :: real) ^ 10 = exp 5"
    using exp_of_nat_mult[of 10 "1 / 2 :: real"] by simp
  ultimately show ?thesis using pow2_nat[of 7] by simp
qed

lemma exp_5_mult_ge: "pow2 (int (7 * m)) \<le> exp (5 * real m)"
proof -
  have "(2::real) ^ 7 \<le> exp 5" using exp_5_ge pow2_nat[of 7] by simp
  then have "((2::real) ^ 7) ^ m \<le> exp 5 ^ m" by (intro power_mono) simp_all
  moreover have "exp (5::real) ^ m = exp (5 * real m)"
    using exp_of_nat_mult[of m "5::real"] by (simp add: mult.commute)
  moreover have "((2::real) ^ 7) ^ m = 2 ^ (7 * m)" by (simp add: power_mult)
  ultimately show ?thesis by (simp only: pow2_nat)
qed

lemma exp_800_ge: "pow2 1120 \<le> exp 800"
  using exp_5_mult_ge[of 160] by simp


lemma rnd_exp_800: "rnd (exp 800) = PInf"
proof -
  have "pow2 1024 \<le> pow2 1120" by (simp only: pow2_le_iff)
  then show ?thesis using exp_800_ge by (intro rnd_overflow) linarith
qed


lemma rnd_exp_minus_800: "rnd (exp (- 800)) = Fin 0"
proof -
  have "exp (- 800 :: real) = 1 / exp 800" by (simp add: exp_minus divide_inverse)
  also have "\<dots> \<le> 1 / pow2 1120"
    using exp_800_ge pow2_pos[of 1120] by (intro divide_left_mono) simp_all
  also have "1 / pow2 1120 = pow2 (- 1120)"
    using pow2_add[of 1120 "- 1120"] pow2_pos[of 1120] by (simp add: pow2_0 field_simps)
  also have "pow2 (- 1120) < pow2 (- 1075)" by (simp only: pow2_less_iff)
  finally have "\<bar>exp (- 800 :: real)\<bar> < pow2 (- 1075)" by simp
  then show ?thesis by (rule rnd_underflow)
qed

lemma up_800: "up_f64 (Fin 800) (Fin 1) = PInf"
  by (simp add: up_f64_def rnd_one rnd_800 rnd_exp_800)

lemma down_800: "down_f64 (Fin 800) (Fin 1) = Fin 0"
  using rnd_minus[of 800] by (simp add: down_f64_def rnd_one rnd_800 rnd_exp_minus_800)

lemma p_0_800: "p_f64 (Fin 1) (Fin 0) (Fin 800) = Fin 0"
  by (simp add: p_f64_def up_800 down_800 rnd_zero rnd_one fsub_def)


lemma discount_0: "fexp (fmul (fneg (Fin 0)) (Fin 1)) = Fin 1"
  by (simp add: rnd_zero rnd_one)

lemma price_call_800: "price_f64 (Fin 100) (Fin 100) (Fin 1) (Fin 0) (Fin 800) ''call'' = NaN"
  by (simp add: price_f64_def p_0_800 up_800 down_800 payoff_f64_def py_max_def fsub_def
      signed_inf_def rnd_zero rnd_one)

lemma price_put_800:
  "price_f64 (Fin 100) (Fin 100) (Fin 1) (Fin 0) (Fin 800) ''put'' = Fin 100"
  by (simp add: price_f64_def p_0_800 up_800 down_800 payoff_f64_def py_max_def fsub_def
      signed_inf_def rnd_zero rnd_one rnd_100)

lemma np_round_100: "np_round (Fin 100) 2 = Fin 100"
  using rint_of_int[of 10000] by (simp add: np_round_def rnd_10000 rnd_100)

lemma example_valid_f64:
  "valid_type ''call''" "valid_type ''put''"
  "\<not> not_positive (Fin 100) (Fin 100) (Fin 1) (Fin 800)"
  by (simp_all add: valid_type_def not_positive_def)

lemma overflow_call:
  "binomial_one_step_f64 (Fin 100) (Fin 100) (Fin 1) (Fin 0) (Fin 800) ''call'' = Inr NaN"
  by (simp add: binomial_one_step_f64_unfold example_valid_f64 up_800 down_800 p_0_800
      price_call_800 np_round_simps)

lemma overflow_put:
  "binomial_one_step_f64 (Fin 100) (Fin 100) (Fin 1) (Fin 0) (Fin 800) ''put'' = Inr (Fin 100)"
  by (simp add: binomial_one_step_f64_unfold example_valid_f64 up_800 down_800 p_0_800
      price_put_800 np_round_100)


subsection \<open>Evaluation: a call deep in the money with a large spot\<close>

lemma rnd_16: "rnd 16 = Fin 16"
  using rnd_pow2[of 4] pow2_nat[of 4] by simp

lemma in_range_one: "in_range 0 0 (Fin 1)"
  by (simp add: in_range_Fin pow2_0)













subsection \<open>Evaluation: equal factors and an arbitrage\<close>

lemma tiny_sigma: "in_range (- 57) (- 56) (rnd (1 / 10 ^ 17))"
proof -
  have "pow2 (- 57) \<le> 1 / 10 ^ 17" "1 / 10 ^ 17 \<le> pow2 (- 56)"
    using pow2_neg[of 57] pow2_neg[of 56] by (simp_all add: field_simps)
  then show ?thesis by (rule in_range_rnd) simp_all
qed

lemma tiny_factors:
  assumes "in_range (- 57) (- 56) sigma"
  shows "up_f64 sigma (Fin 1) = Fin 1" "down_f64 sigma (Fin 1) = Fin 1"
proof -
  obtain s where s: "sigma = Fin s" using assms by (rule in_rangeE)
  have "in_range (- 57 + 0) (- 56 + 0) (fmul sigma (Fin 1))"
    by (rule in_range_fmul[OF assms in_range_one]) simp_all
  then obtain t where t: "fmul sigma (Fin 1) = Fin t" "pow2 (- 57) \<le> t" "t \<le> pow2 (- 56)"
    by (auto elim: in_rangeE)
  have t0: "0 < t" using t(2) pow2_pos[of "- 57"] by linarith
  have t1: "t \<le> 1 / 2 ^ 56" using t(3) pow2_neg[of 56] by simp
  have small: "(1::real) / 2 ^ 56 \<le> 1" by simp
  have tt: "t\<^sup>2 \<le> t"
    using t0 t1 small by (simp add: power2_eq_square mult_left_le)
  have "exp t \<le> 1 + t + t\<^sup>2" using t0 t1 small by (intro exp_bound) linarith+
  then have "exp t \<le> 1 + 2 * (1 / 2 ^ 56)" using tt t1 by linarith
  also have "\<dots> < 1 + 1 / 2 ^ 53" by simp
  finally have up: "exp t < 1 + pow2 (- 53)" using pow2_neg[of 53] by simp
  have "1 \<le> exp t" using t0 by simp
  then have "rnd (exp t) = Fin 1" using up by (rule rnd_one_above)
  then show "up_f64 sigma (Fin 1) = Fin 1"
    by (simp add: up_f64_def rnd_one t(1))
  have neg: "fmul (fneg sigma) (Fin 1) = Fin (- t)"
    using t(1) rnd_minus[of "s * 1"] by (simp add: s)
  have "1 + - t \<le> exp (- t)" by (rule exp_ge_add_one_self)
  moreover have "(1::real) / 2 ^ 56 < 1 / 2 ^ 54" by simp
  ultimately have lo: "1 - pow2 (- 54) < exp (- t)"
    using t1 pow2_neg[of 54] by simp
  have "exp (- t) < 1" using t0 by simp
  with lo have "rnd (exp (- t)) = Fin 1" by (rule rnd_one_below)
  then show "down_f64 sigma (Fin 1) = Fin 1"
    by (simp add: down_f64_def rnd_one neg)
qed

lemma degenerate_example:
  "binomial_one_step_f64 (Fin 100) (Fin 100) (Fin 1) (Fin 0) (rnd (1 / 10 ^ 17)) ''call''
   = Inl (ValueError msg_equal_factors)"
proof -
  have "\<not> fle (rnd (1 / 10 ^ 17)) (Fin 0)" by (rule in_range_pos(2)[OF tiny_sigma])
  then have "\<not> not_positive (Fin 100) (Fin 100) (Fin 1) (rnd (1 / 10 ^ 17))"
    by (simp add: not_positive_def)
  moreover have "feq (up_f64 (rnd (1 / 10 ^ 17)) (Fin 1)) (down_f64 (rnd (1 / 10 ^ 17)) (Fin 1))"
    unfolding tiny_factors[OF tiny_sigma] by simp
  ultimately show ?thesis
    by (simp add: binomial_one_step_f64_unfold valid_type_def)
qed

lemma up_1: "in_range 1 2 (up_f64 (Fin 1) (Fin 1))"
  using in_range_fexp_nat[of 1] by (simp add: up_f64_def rnd_one)

lemma down_1: "in_range (- 2) (- 1) (down_f64 (Fin 1) (Fin 1))"
  using in_range_fexp_minus_nat[of 1] rnd_minus[of 1] by (simp add: down_f64_def rnd_one)

lemma p_16_1: "in_range 13 32 (p_f64 (Fin 1) (Fin 16) (Fin 1))"
proof -
  have e: "in_range 16 32 (fexp (fmul (Fin 16) (Fin 1)))"
    using in_range_fexp_nat[of 16] by (simp add: rnd_16)
  have n: "in_range (16 - 1) 32 (fsub (fexp (fmul (Fin 16) (Fin 1))) (down_f64 (Fin 1) (Fin 1)))"
    by (rule in_range_fsub[OF e down_1]) simp_all
  have m: "in_range (1 - 1) 2 (fsub (up_f64 (Fin 1) (Fin 1)) (down_f64 (Fin 1) (Fin 1)))"
    by (rule in_range_fsub[OF up_1 down_1]) simp_all
  have "in_range (16 - 1 - 2) (32 - (1 - 1))
      (fdiv (fsub (fexp (fmul (Fin 16) (Fin 1))) (down_f64 (Fin 1) (Fin 1)))
            (fsub (up_f64 (Fin 1) (Fin 1)) (down_f64 (Fin 1) (Fin 1))))"
    by (rule in_range_fdiv[OF n m]) simp_all
  then show ?thesis by (simp add: p_f64_def)
qed

lemma arbitrage_example:
  "binomial_one_step_f64 (Fin 100) (Fin 100) (Fin 1) (Fin 16) (Fin 1) ''call''
   = Inl (ValueError msg_no_arbitrage)"
proof -
  have "\<not> feq (up_f64 (Fin 1) (Fin 1)) (down_f64 (Fin 1) (Fin 1))"
    by (rule in_range_not_feq[OF up_1 down_1]) simp
  moreover have "flt (Fin 1) (p_f64 (Fin 1) (Fin 16) (Fin 1))"
    by (rule in_range_gt_one[OF p_16_1]) simp
  ultimately show ?thesis
    by (simp add: binomial_one_step_f64_unfold valid_type_def not_positive_def)
qed

lemma binomial_one_step_f64_Inr:
  assumes "binomial_one_step_f64 S K T r sigma option_type = Inr v"
  shows "\<not> (flt (p_f64 T r sigma) (Fin 0) \<or> flt (Fin 1) (p_f64 T r sigma))"
    "v = np_round (price_f64 S K T r sigma option_type) 2"
  using assms by (auto simp: binomial_one_step_f64_unfold split: if_splits)

subsection \<open>Evaluation: rounding 2.675 to two decimals\<close>

text \<open>
  The literal \<open>2.675\<close> is the double just below the tie. In doubles its product with 100
  rounds up to the tie \<open>267.5\<close>, which \<open>rint\<close> takes to the even 268: \<open>round\<close> gives
  \<open>2.68\<close>. On the reals the same double stays below the tie and \<open>py_round\<close> gives 2.67.
\<close>

lemma rnd_eval:
  assumes "pow2 k \<le> \<bar>x\<bar>" "\<bar>x\<bar> < pow2 (k + 1)" "- 1022 \<le> k" "k \<le> 1022"
    and "\<bar>x / pow2 (k - 52) - of_int n\<bar> < 1 / 2"
  shows "rnd x = Fin (of_int n * pow2 (k - 52))"
proof -
  have b: "binade x = k" by (rule binade_eq[OF assms(1,2,3)])
  have u: "ulp x = pow2 (k - 52)" by (simp add: ulp_def b)
  have r: "rint (x / pow2 (k - 52)) = n" by (rule rint_near[OF assms(5)])
  have "\<bar>x\<bar> / pow2 (k - 52) < 2 ^ 53"
    by (rule scaled_bounds(2)[OF assms(1,2)])
  then have "\<bar>x / pow2 (k - 52)\<bar> < real_of_int (2 ^ 53)"
    using pow2_pos[of "k - 52"] by (simp add: abs_divide)
  then have "real_of_int \<bar>n\<bar> < real_of_int (2 ^ 53) + 1" using assms(5) by linarith
  then have "real_of_int \<bar>n\<bar> < real_of_int (2 ^ 53 + 1)" by simp
  then have "\<bar>n\<bar> < 2 ^ 53 + 1" by (simp only: of_int_less_iff)
  then have "\<bar>n\<bar> \<le> 2 ^ 53" by simp
  then have "real_of_int \<bar>n\<bar> \<le> real_of_int (2 ^ 53)" by (simp only: of_int_le_iff)
  then have "real_of_int \<bar>n\<bar> * pow2 (k - 52) \<le> real_of_int (2 ^ 53) * pow2 (k - 52)"
    using pow2_pos[of "k - 52"] by (simp only: mult_le_cancel_right_pos)
  also have "real_of_int (2 ^ 53) * pow2 (k - 52) = pow2 (k + 1)"
    using pow2_shift[of 53 "k + 1"] pow2_nat[of 53] by simp
  also have "pow2 (k + 1) < pow2 1024" using assms(4) by (simp only: pow2_less_iff)
  finally have "\<bar>real_of_int n * pow2 (k - 52)\<bar> < pow2 1024"
    using pow2_pos[of "k - 52"] by (simp add: abs_mult)
  then have "\<not> pow2 1024 \<le> real_of_int n * pow2 (k - 52)"
    "\<not> real_of_int n * pow2 (k - 52) \<le> - pow2 1024" by linarith+
  then show ?thesis by (simp add: rnd_def Let_def u r)
qed

lemma double_2675: "rnd (2675 / 1000) = Fin (6023564501608038 / 2 ^ 51)"
proof -
  have h: "pow2 (- 51) = 1 / 2 ^ 51" using pow2_neg[of 51] by simp
  have "rnd (2675 / 1000) = Fin (of_int 6023564501608038 * pow2 (1 - 52))"
    using pow2_nat[of 1] pow2_nat[of 2] by (intro rnd_eval) (simp_all add: h)
  then show ?thesis by (simp add: h)
qed

lemma np_round_2675: "np_round (rnd (2675 / 1000)) 2 = rnd (268 / 100)"
proof -
  define x :: real where "x = 6023564501608038 / 2 ^ 51"
  have a: "rnd (2675 / 1000) = Fin x" unfolding x_def by (rule double_2675)
  have h: "pow2 (- 44) = 1 / 2 ^ 44" using pow2_neg[of 44] by simp
  have "rnd (x * 100) = Fin (of_int 4705909766881280 * pow2 (8 - 52))"
    using pow2_nat[of 8] pow2_nat[of 9] by (intro rnd_eval) (simp_all add: h x_def)
  then have b: "rnd (x * 100) = Fin (535 / 2)" by (simp add: h)
  have c: "rint (535 / 2) = 268" by (simp add: rint_def)
  have "np_round (Fin x) 2 = rnd (268 / 100)" by (simp add: np_round_def b c)
  then show ?thesis by (simp only: a)
qed

lemma py_round_2675: "py_round (6023564501608038 / 2 ^ 51) 2 = 267 / 100"
proof -
  have "\<lfloor>6023564501608038 / 2 ^ 51 * 100 :: real\<rfloor> = 267" by (simp add: floor_eq_iff)
  then show ?thesis by (simp add: py_round_def rint_def Let_def)
qed

section \<open>The claims\<close>

text \<open>
  C1. For positive \<open>S\<close>, \<open>K\<close>, \<open>T\<close>, \<open>sigma\<close> and an option type of Call or Put
  (the strings \<open>'call'\<close>, \<open>'put'\<close>), whenever no gate of the function fires, the
  function returns the value the specification's steps 3 to 9 compute: the discounted
  risk-neutral expectation of the two payoffs, rounded to two decimals.
\<close>

theorem C1_price_formula:
  assumes "0 < S" "0 < K" "0 < T" "0 < sigma"
    and "\<not> isl (binomial_one_step S K T r sigma (kind_name k))"
  shows "binomial_one_step S K T r sigma (kind_name k) = Inr (spec_price S K T r sigma k)"
proof -
  obtain v where "binomial_one_step S K T r sigma (kind_name k) = Inr v"
    using assms(5) by (cases "binomial_one_step S K T r sigma (kind_name k)") simp_all
  then show ?thesis
    using binomial_one_step_Inr(6) by (simp add: spec_price_eq)
qed

theorem C1_price_formula_witness:
  "binomial_one_step 100 100 1 0 1 ''call'' = Inr (spec_price 100 100 1 0 1 Call)
   \<and> binomial_one_step 100 100 1 0 1 ''put'' = Inr (spec_price 100 100 1 0 1 Put)"
proof -
  have "\<not> isl (binomial_one_step 100 100 1 0 1 ''call'')"
    and "\<not> isl (binomial_one_step 100 100 1 0 1 ''put'')"
    by (simp_all add: binomial_one_step_success example_valid valid_type_def)
  then show ?thesis
    using C1_price_formula[of 100 100 1 1 0 Call] C1_price_formula[of 100 100 1 1 0 Put]
    by simp
qed

text \<open>
  C2. The function fails with an \<open>InvalidArgument\<close> error exactly when the option type
  is neither \<open>'call'\<close> nor \<open>'put'\<close> or one of \<open>S\<close>, \<open>K\<close>, \<open>T\<close>, \<open>sigma\<close> is
  not positive. The option type is checked first: a wrong option type gives the option-type
  message whatever the numbers are, and the message about the numbers is raised only for a
  right option type. A call that fails so returns no value.
\<close>

theorem C2_invalid_argument:
  "(raises (binomial_one_step S K T r sigma option_type) InvalidArgument
      \<longleftrightarrow> (option_type \<noteq> ''call'' \<and> option_type \<noteq> ''put'')
          \<or> S \<le> 0 \<or> K \<le> 0 \<or> T \<le> 0 \<or> sigma \<le> 0)
   \<and> (option_type \<noteq> ''call'' \<and> option_type \<noteq> ''put''
      \<longrightarrow> binomial_one_step S K T r sigma option_type = Inl (ValueError msg_option_type))
   \<and> (option_type = ''call'' \<or> option_type = ''put''
      \<longrightarrow> S \<le> 0 \<or> K \<le> 0 \<or> T \<le> 0 \<or> sigma \<le> 0
      \<longrightarrow> binomial_one_step S K T r sigma option_type = Inl (ValueError msg_positive))
   \<and> (raises (binomial_one_step S K T r sigma option_type) InvalidArgument
      \<longrightarrow> (\<forall>v. binomial_one_step S K T r sigma option_type \<noteq> Inr v))"
proof (intro conjI)
  show "raises (binomial_one_step S K T r sigma option_type) InvalidArgument
      \<longleftrightarrow> (option_type \<noteq> ''call'' \<and> option_type \<noteq> ''put'')
          \<or> S \<le> 0 \<or> K \<le> 0 \<or> T \<le> 0 \<or> sigma \<le> 0"
    by (simp add: binomial_one_step_unfold raises_simps valid_type_def valid_numbers_def
        not_less)
  show "option_type \<noteq> ''call'' \<and> option_type \<noteq> ''put''
      \<longrightarrow> binomial_one_step S K T r sigma option_type = Inl (ValueError msg_option_type)"
    by (simp add: binomial_one_step_unfold valid_type_def)
  show "option_type = ''call'' \<or> option_type = ''put''
      \<longrightarrow> S \<le> 0 \<or> K \<le> 0 \<or> T \<le> 0 \<or> sigma \<le> 0
      \<longrightarrow> binomial_one_step S K T r sigma option_type = Inl (ValueError msg_positive)"
    by (simp add: binomial_one_step_unfold valid_type_def valid_numbers_def not_less)
  show "raises (binomial_one_step S K T r sigma option_type) InvalidArgument
      \<longrightarrow> (\<forall>v. binomial_one_step S K T r sigma option_type \<noteq> Inr v)"
    by (auto simp: raises_simps)
qed

theorem C2_invalid_argument_witness:
  "raises (binomial_one_step 0 100 1 0 1 ''straddle'') InvalidArgument
   \<and> binomial_one_step 0 100 1 0 1 ''straddle'' = Inl (ValueError msg_option_type)
   \<and> binomial_one_step 0 100 1 0 1 ''put'' = Inl (ValueError msg_positive)
   \<and> binomial_one_step 0 100 1 0 1 ''put'' \<noteq> Inr 0"
  using C2_invalid_argument[of 0 100 1 0 1 "''straddle''"]
    C2_invalid_argument[of 0 100 1 0 1 "''put''"]
  by (simp add: raises_simps)

text \<open>
  C3, as amended. Whenever the function returns a value, for a call as for a put, that
  value is not negative or it is NaN. This is the function in double precision, on every
  input.
\<close>

theorem C3_price_nonneg_or_nan:
  assumes "binomial_one_step_f64 S K T r sigma option_type = Inr v"
  shows "v = NaN \<or> fle (Fin 0) v"
proof -
  have "nonneg_or_nan (price_f64 S K T r sigma option_type)"
    by (rule price_nonneg_or_nan[OF binomial_one_step_f64_Inr(1)[OF assms]])
  then have "nonneg_or_nan (np_round (price_f64 S K T r sigma option_type) 2)"
    by (rule np_round_nonneg_or_nan)
  then show ?thesis
    by (simp add: binomial_one_step_f64_Inr(2)[OF assms] nonneg_or_nan_def)
qed

theorem C3_price_nonneg_or_nan_witness:
  "binomial_one_step_f64 (Fin 100) (Fin 100) (Fin 1) (Fin 0) (Fin 800) ''put'' = Inr (Fin 100)
   \<and> fle (Fin 0) (Fin 100)"
  using C3_price_nonneg_or_nan[OF overflow_put] overflow_put by simp

text \<open>
  C3 as first stated, "the returned value is not negative", fails: with spot 100, strike
  100, one year, rate 0 and volatility 800 the up factor overflows to infinity, the down
  factor underflows to 0, \<open>p\<close> is 0 and passes the gate, and the call's price is
  \<open>0 * inf\<close>: the function returns NaN, of which no comparison holds.
\<close>

theorem C3_counterexample:
  "binomial_one_step_f64 (Fin 100) (Fin 100) (Fin 1) (Fin 0) (Fin 800) ''call'' = Inr NaN
   \<and> \<not> fle (Fin 0) NaN"
  using overflow_call by simp

text \<open>
  C4, as amended. In exact real arithmetic, put-call parity holds up to rounding: when the
  call and the put on the same numbers are both priced, the difference of the two returned
  prices is within 0.01 of \<open>S - K * exp (- r * T)\<close>.
\<close>

theorem C4_put_call_parity:
  assumes "binomial_one_step S K T r sigma ''call'' = Inr c"
    and "binomial_one_step S K T r sigma ''put'' = Inr q"
  shows "\<bar>c - q - (S - K * exp (- r * T))\<bar> \<le> 1 / 100"
proof -
  let ?C = "expected_value S K T r sigma ''call''"
  let ?P = "expected_value S K T r sigma ''put''"
  have c: "c = py_round ?C 2" and q: "q = py_round ?P 2"
    using binomial_one_step_Inr(6)[OF assms(1)] binomial_one_step_Inr(6)[OF assms(2)]
    by simp_all
  have "?C - ?P = S - K * exp (- r * T)"
    by (rule parity_unrounded[OF binomial_one_step_Inr(3)[OF assms(1)]])
  then have "c - q - (S - K * exp (- r * T)) = (c - ?C) - (q - ?P)" by simp
  moreover have "\<bar>c - ?C\<bar> \<le> 1 / 200" "\<bar>q - ?P\<bar> \<le> 1 / 200"
    unfolding c q by (rule py_round_error)+
  ultimately show ?thesis by linarith
qed

theorem C4_put_call_parity_witness:
  "binomial_one_step 100 90 1 (1 / 2) 1 ''call''
     = Inr (py_round (expected_value 100 90 1 (1 / 2) 1 ''call'') 2)
   \<and> binomial_one_step 100 90 1 (1 / 2) 1 ''put''
     = Inr (py_round (expected_value 100 90 1 (1 / 2) 1 ''put'') 2)
   \<and> \<bar>py_round (expected_value 100 90 1 (1 / 2) 1 ''call'') 2
       - py_round (expected_value 100 90 1 (1 / 2) 1 ''put'') 2
       - (100 - 90 * exp (- (1 / 2) * 1))\<bar>
      \<le> 1 / 100"
proof -
  have c: "binomial_one_step 100 90 1 (1 / 2) 1 ''call''
     = Inr (py_round (expected_value 100 90 1 (1 / 2) 1 ''call'') 2)"
    and p: "binomial_one_step 100 90 1 (1 / 2) 1 ''put''
     = Inr (py_round (expected_value 100 90 1 (1 / 2) 1 ''put'') 2)"
    by (simp_all add: binomial_one_step_success example_valid valid_type_def)
  show ?thesis
    using c p C4_put_call_parity[OF c p] by blast
qed

text \<open>
  C4 as first stated, of the program, fails: in double precision, with spot 100, strike
  100, one year, rate 0 and volatility 800, both calls return, the call NaN and the put
  100, and the parity test on the two is false.
\<close>

theorem C4_counterexample:
  "binomial_one_step_f64 (Fin 100) (Fin 100) (Fin 1) (Fin 0) (Fin 800) ''call'' = Inr NaN
   \<and> binomial_one_step_f64 (Fin 100) (Fin 100) (Fin 1) (Fin 0) (Fin 800) ''put'' = Inr (Fin 100)
   \<and> \<not> parity_check NaN (Fin 100) (Fin 100) (Fin 100) (Fin 1) (Fin 0)"
  using overflow_call overflow_put by (simp add: parity_check_def)

text \<open>
  C5. On an input that passes the validation of the arguments and the test \<open>u == d\<close>,
  the function fails with \<open>ArbitrageViolation\<close> exactly when the risk-neutral probability
  \<open>p = (exp (r * T) - d) / (u - d)\<close> is below 0 or above 1; the result is then the error
  alone, with no value.
\<close>

theorem C5_arbitrage_violation:
  assumes "option_type = ''call'' \<or> option_type = ''put''"
    and "0 < S" "0 < K" "0 < T" "0 < sigma"
    and "exp (sigma * sqrt T) \<noteq> exp (- sigma * sqrt T)"
  shows "(raises (binomial_one_step S K T r sigma option_type) ArbitrageViolation
          \<longleftrightarrow> risk_neutral_p T r sigma < 0 \<or> risk_neutral_p T r sigma > 1)
       \<and> (raises (binomial_one_step S K T r sigma option_type) ArbitrageViolation
          \<longleftrightarrow> binomial_one_step S K T r sigma option_type = Inl (ValueError msg_no_arbitrage))
       \<and> risk_neutral_p T r sigma
          = (exp (r * T) - exp (- sigma * sqrt T))
            / (exp (sigma * sqrt T) - exp (- sigma * sqrt T))"
proof -
  have v: "valid_type option_type" "valid_numbers S K T sigma"
    using assms by (simp_all add: valid_type_def valid_numbers_def)
  have ne: "up_factor sigma T \<noteq> down_factor sigma T"
    using assms(6) by (simp add: up_factor_def down_factor_def)
  show ?thesis
    using v ne
    by (auto simp: binomial_one_step_unfold raises_simps risk_neutral_p_def up_factor_def
        down_factor_def)
qed

theorem C5_arbitrage_violation_witness:
  "raises (binomial_one_step 100 100 1 2 1 ''call'') ArbitrageViolation
   \<and> binomial_one_step 100 100 1 2 1 ''call'' = Inl (ValueError msg_no_arbitrage)"
proof -
  have v: "''call'' = ''call'' \<or> ''call'' = ''put''" "(0::real) < 100" "(0::real) < 1"
    by simp_all
  have ne: "exp (1 * sqrt 1) \<noteq> exp (- 1 * sqrt (1::real))" by simp
  show ?thesis
    using C5_arbitrage_violation[OF v(1) v(2) v(2) v(3) v(3) ne, of 2] example_arbitrage
    by blast
qed

text \<open>
  C6. The failures are of three kinds that the raised error tells apart:
  \<open>InvalidArgument\<close> for a wrong option type or a number that is not positive,
  \<open>DegenerateModel\<close> exactly when the validation passed and \<open>u == d\<close>, and
  \<open>ArbitrageViolation\<close> when both passed and \<open>p\<close> is below 0 or above 1. Every error
  the function raises has one of the three kinds. This is the function in double
  precision, where each of the three is raised on some input.
\<close>

theorem C6_error_taxonomy:
  "(raises (binomial_one_step_f64 S K T r sigma option_type) InvalidArgument
      \<longleftrightarrow> (option_type \<noteq> ''call'' \<and> option_type \<noteq> ''put'')
          \<or> fle S (Fin 0) \<or> fle K (Fin 0) \<or> fle T (Fin 0) \<or> fle sigma (Fin 0))
   \<and> (raises (binomial_one_step_f64 S K T r sigma option_type) DegenerateModel
      \<longleftrightarrow> valid_type option_type \<and> \<not> not_positive S K T sigma
          \<and> feq (up_f64 sigma T) (down_f64 sigma T))
   \<and> (raises (binomial_one_step_f64 S K T r sigma option_type) ArbitrageViolation
      \<longleftrightarrow> valid_type option_type \<and> \<not> not_positive S K T sigma
          \<and> \<not> feq (up_f64 sigma T) (down_f64 sigma T)
          \<and> (flt (p_f64 T r sigma) (Fin 0) \<or> flt (Fin 1) (p_f64 T r sigma)))
   \<and> (\<forall>e. binomial_one_step_f64 S K T r sigma option_type = Inl e
          \<longrightarrow> (\<exists>c. category e = Some c))"
proof (intro conjI)
  show "raises (binomial_one_step_f64 S K T r sigma option_type) InvalidArgument
      \<longleftrightarrow> (option_type \<noteq> ''call'' \<and> option_type \<noteq> ''put'')
          \<or> fle S (Fin 0) \<or> fle K (Fin 0) \<or> fle T (Fin 0) \<or> fle sigma (Fin 0)"
    by (simp add: binomial_one_step_f64_unfold raises_simps valid_type_def not_positive_def)
  show "raises (binomial_one_step_f64 S K T r sigma option_type) DegenerateModel
      \<longleftrightarrow> valid_type option_type \<and> \<not> not_positive S K T sigma
          \<and> feq (up_f64 sigma T) (down_f64 sigma T)"
    by (simp add: binomial_one_step_f64_unfold raises_simps)
  show "raises (binomial_one_step_f64 S K T r sigma option_type) ArbitrageViolation
      \<longleftrightarrow> valid_type option_type \<and> \<not> not_positive S K T sigma
          \<and> \<not> feq (up_f64 sigma T) (down_f64 sigma T)
          \<and> (flt (p_f64 T r sigma) (Fin 0) \<or> flt (Fin 1) (p_f64 T r sigma))"
    by (simp add: binomial_one_step_f64_unfold raises_simps)
  show "\<forall>e. binomial_one_step_f64 S K T r sigma option_type = Inl e
          \<longrightarrow> (\<exists>c. category e = Some c)"
    by (auto simp: binomial_one_step_f64_unfold category_simps split: if_splits)
qed

theorem C6_error_taxonomy_witness:
  "raises (binomial_one_step_f64 (Fin 100) (Fin 100) (Fin 1) (Fin 0) (Fin 1) ''straddle'')
     InvalidArgument
   \<and> raises (binomial_one_step_f64 (Fin 100) (Fin 0) (Fin 1) (Fin 0) (Fin 1) ''put'')
     InvalidArgument
   \<and> raises (binomial_one_step_f64 (Fin 100) (Fin 100) (Fin 1) (Fin 0) (rnd (1 / 10 ^ 17))
       ''call'') DegenerateModel
   \<and> raises (binomial_one_step_f64 (Fin 100) (Fin 100) (Fin 1) (Fin 16) (Fin 1) ''call'')
     ArbitrageViolation"
proof -
  have v: "valid_type ''call''" by (simp add: valid_type_def)
  have d: "\<not> not_positive (Fin 100) (Fin 100) (Fin 1) (rnd (1 / 10 ^ 17))"
    using in_range_pos(2)[OF tiny_sigma] by (simp add: not_positive_def)
  have d': "feq (up_f64 (rnd (1 / 10 ^ 17)) (Fin 1)) (down_f64 (rnd (1 / 10 ^ 17)) (Fin 1))"
    unfolding tiny_factors[OF tiny_sigma] by simp
  have a: "\<not> not_positive (Fin 100) (Fin 100) (Fin 1) (Fin 1)"
    by (simp add: not_positive_def)
  have a': "\<not> feq (up_f64 (Fin 1) (Fin 1)) (down_f64 (Fin 1) (Fin 1))"
    by (rule in_range_not_feq[OF up_1 down_1]) simp
  have a'': "flt (Fin 1) (p_f64 (Fin 1) (Fin 16) (Fin 1))"
    by (rule in_range_gt_one[OF p_16_1]) simp
  show ?thesis
    using C6_error_taxonomy[of "Fin 100" "Fin 100" "Fin 1" "Fin 0" "Fin 1" "''straddle''"]
      C6_error_taxonomy[of "Fin 100" "Fin 0" "Fin 1" "Fin 0" "Fin 1" "''put''"]
      C6_error_taxonomy[of "Fin 100" "Fin 100" "Fin 1" "Fin 0" "rnd (1 / 10 ^ 17)" "''call''"]
      C6_error_taxonomy[of "Fin 100" "Fin 100" "Fin 1" "Fin 16" "Fin 1" "''call''"]
      v d d' a a' a''
    by simp
qed




text \<open>
  C8. In exact real arithmetic, positive \<open>sigma\<close> and \<open>T\<close> give
  \<open>u = exp (sigma * sqrt T) > 1 > d = exp (- sigma * sqrt T)\<close>, hence \<open>u \<noteq> d\<close>, and the
  function never fails with \<open>DegenerateModel\<close>, on any input.
\<close>

theorem C8_degenerate_unreachable:
  "(0 < sigma \<and> 0 < T \<longrightarrow>
      exp (sigma * sqrt T) > 1 \<and> 1 > exp (- sigma * sqrt T)
      \<and> exp (sigma * sqrt T) \<noteq> exp (- sigma * sqrt T))
   \<and> \<not> raises (binomial_one_step S K T r sigma option_type) DegenerateModel
   \<and> binomial_one_step S K T r sigma option_type \<noteq> Inl (ValueError msg_equal_factors)"
proof (intro conjI impI)
  assume a: "0 < sigma \<and> 0 < T"
  then have "0 < sigma * sqrt T" by simp
  then show "exp (sigma * sqrt T) > 1" "1 > exp (- sigma * sqrt T)"
    "exp (sigma * sqrt T) \<noteq> exp (- sigma * sqrt T)"
    using a by simp_all
next
  have "valid_numbers S K T sigma \<Longrightarrow> up_factor sigma T \<noteq> down_factor sigma T"
    using factors_order[of sigma T] by (auto simp: valid_numbers_def)
  then show "\<not> raises (binomial_one_step S K T r sigma option_type) DegenerateModel"
    "binomial_one_step S K T r sigma option_type \<noteq> Inl (ValueError msg_equal_factors)"
    using msgs_distinct by (auto simp: binomial_one_step_unfold raises_simps)
qed

theorem C8_degenerate_unreachable_witness:
  "exp (1 * sqrt 1) > (1::real) \<and> (1::real) > exp (- 1 * sqrt 1)
   \<and> \<not> raises (binomial_one_step 100 100 1 0 1 ''call'') DegenerateModel"
  using C8_degenerate_unreachable[of 1 1 100 100 0 "''call''"] by simp




text \<open>
  C10. The option type defaults to \<open>'call'\<close>: a call with the five numbers alone behaves
  as the call with the option type \<open>'call'\<close> given.
\<close>

theorem C10_default_option_type:
  "call_binomial_one_step S K T r sigma None
     = call_binomial_one_step S K T r sigma (Some ''call'')
   \<and> call_binomial_one_step S K T r sigma None = binomial_one_step S K T r sigma ''call''"
  by (simp add: call_binomial_one_step_def)

theorem C10_default_option_type_witness:
  "call_binomial_one_step 100 100 1 (5 / 100) (2 / 10) None
     = call_binomial_one_step 100 100 1 (5 / 100) (2 / 10) (Some ''call'')"
  using C10_default_option_type[of 100 100 1 "5 / 100" "2 / 10"] by simp

end
